theory Spec2Isabelle
  imports Main "HOL-Library.Word"
begin

unbundle bit_operations_syntax

section \<open>Data model of arch/arm/common/gic.c\<close>

text \<open>
  \<open>unsigned int\<close>, \<open>u32\<close> and \<open>unsigned long\<close> are 32 bits wide on ARM: \<open>32 word\<close>.
  A \<open>void __iomem *\<close> is a register window together with a byte offset into it;
  pointer arithmetic acts on the offset and wraps like the 32-bit pointer does.
\<close>

type_synonym u32 = "32 word"

type_synonym iomem = "nat \<times> u32"

definition ptr_add :: "iomem \<Rightarrow> u32 \<Rightarrow> iomem" where
  "ptr_add p n = (fst p, snd p + n)"

text \<open>
  Modelled from the spec: the register offsets of \<open>asm/hardware/gic.h\<close>, which is not
  among the sources. The spec fixes the layout (enable-set, enable-clear, pending,
  priority, target, config and software-interrupt registers of the distributor;
  control, priority-mask, interrupt-acknowledge and end-of-interrupt registers of the
  CPU interface); the numbers are those of the header of this kernel version.
\<close>

definition GIC_CPU_CTRL :: u32 where "GIC_CPU_CTRL = 0x00"
definition GIC_CPU_PRIMASK :: u32 where "GIC_CPU_PRIMASK = 0x04"
definition GIC_CPU_INTACK :: u32 where "GIC_CPU_INTACK = 0x0c"
definition GIC_CPU_EOI :: u32 where "GIC_CPU_EOI = 0x10"

definition GIC_DIST_CTRL :: u32 where "GIC_DIST_CTRL = 0x000"
definition GIC_DIST_CTR :: u32 where "GIC_DIST_CTR = 0x004"
definition GIC_DIST_ENABLE_SET :: u32 where "GIC_DIST_ENABLE_SET = 0x100"
definition GIC_DIST_ENABLE_CLEAR :: u32 where "GIC_DIST_ENABLE_CLEAR = 0x180"
definition GIC_DIST_PENDING_SET :: u32 where "GIC_DIST_PENDING_SET = 0x200"
definition GIC_DIST_PENDING_CLEAR :: u32 where "GIC_DIST_PENDING_CLEAR = 0x280"
definition GIC_DIST_PRI :: u32 where "GIC_DIST_PRI = 0x400"
definition GIC_DIST_TARGET :: u32 where "GIC_DIST_TARGET = 0x800"
definition GIC_DIST_CONFIG :: u32 where "GIC_DIST_CONFIG = 0xc00"
definition GIC_DIST_SOFTINT :: u32 where "GIC_DIST_SOFTINT = 0xf00"

text \<open>
  Modelled from the spec: the trigger kinds of \<open>linux/irq.h\<close> (the spec's \<open>EdgeRising\<close>
  and \<open>LevelHigh\<close>) and the error number of \<open>InvalidArgument\<close>, with the values of the
  kernel headers.
\<close>

definition IRQ_TYPE_EDGE_RISING :: u32 where "IRQ_TYPE_EDGE_RISING = 0x1"
definition IRQ_TYPE_LEVEL_HIGH :: u32 where "IRQ_TYPE_LEVEL_HIGH = 0x4"
definition EINVAL :: int where "EINVAL = 22"

text \<open>\<open>struct gic_chip_data\<close>, with \<open>CONFIG_PM\<close> set. The two arrays have 32 elements;
  every indexed access below checks the index against that bound.\<close>

record gic_chip_data =
  irq_offset :: u32
  dist_base :: iomem
  cpu_base :: iomem
  max_irq :: u32
  wakeup_irqs :: "nat \<Rightarrow> u32"
  enabled_irqs :: "nat \<Rightarrow> u32"

text \<open>The fields of \<open>struct irq_data\<close> the driver uses. \<open>chip_data\<close> points to an element
  of the array \<open>gic_data\<close>: it is the index of that element.\<close>

record irq_data =
  irq :: u32
  node :: u32
  chip_data :: nat

text \<open>What an operation does that the outside can observe, in program order: taking and
  releasing \<open>irq_controller_lock\<close>, register reads (with the value read) and writes,
  barriers, warnings, and the calls into the interrupt framework.\<close>

datatype event =
    Spin_lock
  | Spin_unlock
  | Readl iomem u32
  | Writel u32 iomem
  | Mb
  | Warn_on
  | Chip_irq_ack u32
  | Chip_irq_unmask u32
  | Generic_handle_irq u32
  | Do_bad_IRQ u32
  | Set_irq_handler_edge u32
  | Set_irq_chip u32
  | Set_irq_chip_data u32 nat
  | Set_irq_handler_level u32
  | Set_irq_flags u32

text \<open>The memory-mapped hardware is a parameter of the driver: a state of type \<open>'h\<close>, a
  read that returns a value and a new state, and a write.\<close>

record 'h device =
  dev_readl :: "'h \<Rightarrow> iomem \<Rightarrow> u32 \<times> 'h"
  dev_writel :: "'h \<Rightarrow> iomem \<Rightarrow> u32 \<Rightarrow> 'h"

text \<open>The state the driver runs in: the hardware, the static array \<open>gic_data\<close>, the
  global \<open>gic_cpu_base_addr\<close>, the descriptors known to the interrupt framework
  (\<open>irq_to_desc\<close> is not NULL), and the events so far.\<close>

record 'h machine =
  hw :: 'h
  gic_data :: "nat \<Rightarrow> gic_chip_data"
  gic_cpu_base_addr :: iomem
  has_desc :: "u32 \<Rightarrow> bool"
  trace :: "event list"

datatype fault = Array_out_of_bounds | Bug

section \<open>Register access and locking\<close>

definition emit :: "event \<Rightarrow> 'h machine \<Rightarrow> 'h machine" where
  "emit e s = s\<lparr>trace := trace s @ [e]\<rparr>"

definition spin_lock :: "'h machine \<Rightarrow> 'h machine" where
  "spin_lock s = emit Spin_lock s"

definition spin_unlock :: "'h machine \<Rightarrow> 'h machine" where
  "spin_unlock s = emit Spin_unlock s"

definition mb :: "'h machine \<Rightarrow> 'h machine" where
  "mb s = emit Mb s"

definition readl :: "'h device \<Rightarrow> iomem \<Rightarrow> 'h machine \<Rightarrow> u32 \<times> 'h machine" where
  "readl dev a s =
     (case dev_readl dev (hw s) a of
        (v, h) \<Rightarrow> (v, emit (Readl a v) (s\<lparr>hw := h\<rparr>)))"

definition writel :: "'h device \<Rightarrow> u32 \<Rightarrow> iomem \<Rightarrow> 'h machine \<Rightarrow> 'h machine" where
  "writel dev v a s = emit (Writel v a) (s\<lparr>hw := dev_writel dev (hw s) a v\<rparr>)"

section \<open>Line operations\<close>

definition gic_dist_base :: "irq_data \<Rightarrow> 'h machine \<Rightarrow> iomem" where
  "gic_dist_base d s = dist_base (gic_data s (chip_data d))"

definition gic_cpu_base :: "irq_data \<Rightarrow> 'h machine \<Rightarrow> iomem" where
  "gic_cpu_base d s = cpu_base (gic_data s (chip_data d))"

definition gic_irq :: "irq_data \<Rightarrow> 'h machine \<Rightarrow> u32" where
  "gic_irq d s = irq d - irq_offset (gic_data s (chip_data d))"

text \<open>\<open>gic_ack_irq\<close>, \<open>gic_mask_irq\<close>, \<open>gic_unmask_irq\<close>. The platform hooks under
  \<open>CONFIG_MSM_MPM\<close> and \<open>CONFIG_MSM_RPM\<close> belong to another driver and are left out here
  and below. In \<open>1 << n\<close> the shifted 1 is an \<open>int\<close> that is then stored in a \<open>u32\<close>.\<close>

definition gic_ack_irq :: "'h device \<Rightarrow> irq_data \<Rightarrow> 'h machine \<Rightarrow> 'h machine" where
  "gic_ack_irq dev d s =
     (let s = spin_lock s;
          s = writel dev (gic_irq d s) (ptr_add (gic_cpu_base d s) GIC_CPU_EOI) s
      in spin_unlock s)"

definition gic_mask_irq :: "'h device \<Rightarrow> irq_data \<Rightarrow> 'h machine \<Rightarrow> 'h machine" where
  "gic_mask_irq dev d s =
     (let mask = push_bit (unat (irq d mod 32)) (1 :: u32);
          s = spin_lock s;
          s = writel dev mask
                (ptr_add (ptr_add (gic_dist_base d s) GIC_DIST_ENABLE_CLEAR)
                   ((gic_irq d s div 32) * 4)) s
      in spin_unlock s)"

definition gic_unmask_irq :: "'h device \<Rightarrow> irq_data \<Rightarrow> 'h machine \<Rightarrow> 'h machine" where
  "gic_unmask_irq dev d s =
     (let mask = push_bit (unat (irq d mod 32)) (1 :: u32);
          s = spin_lock s;
          s = writel dev mask
                (ptr_add (ptr_add (gic_dist_base d s) GIC_DIST_ENABLE_SET)
                   ((gic_irq d s div 32) * 4)) s
      in spin_unlock s)"

section \<open>Power transition\<close>

definition set_enabled_irqs :: "nat \<Rightarrow> nat \<Rightarrow> u32 \<Rightarrow> 'h machine \<Rightarrow> 'h machine" where
  "set_enabled_irqs gic_nr i v s =
     s\<lparr>gic_data := (gic_data s)
        (gic_nr := (gic_data s gic_nr)
           \<lparr>enabled_irqs := (enabled_irqs (gic_data s gic_nr))(i := v)\<rparr>)\<rparr>"

definition set_wakeup_irqs :: "nat \<Rightarrow> nat \<Rightarrow> u32 \<Rightarrow> 'h machine \<Rightarrow> 'h machine" where
  "set_wakeup_irqs gic_nr i v s =
     s\<lparr>gic_data := (gic_data s)
        (gic_nr := (gic_data s gic_nr)
           \<lparr>wakeup_irqs := (wakeup_irqs (gic_data s gic_nr))(i := v)\<rparr>)\<rparr>"

text \<open>One pass of the loop body of \<open>gic_suspend\<close>, for the word \<open>i\<close>.\<close>

definition gic_suspend_word ::
  "'h device \<Rightarrow> nat \<Rightarrow> iomem \<Rightarrow> u32 \<Rightarrow> 'h machine \<Rightarrow> 'h machine" where
  "gic_suspend_word dev gic_nr base i s =
     (case readl dev (ptr_add (ptr_add base GIC_DIST_ENABLE_SET) (i * 4)) s of
        (v, s) \<Rightarrow>
          (let s = set_enabled_irqs gic_nr (unat i) v s;
               s = writel dev 0xffffffff
                     (ptr_add (ptr_add base GIC_DIST_ENABLE_CLEAR) (i * 4)) s
           in writel dev (wakeup_irqs (gic_data s gic_nr) (unat i))
                (ptr_add (ptr_add base GIC_DIST_ENABLE_SET) (i * 4)) s))"

text \<open>The loop of \<open>gic_suspend\<close>, from counter \<open>i\<close> on. \<open>i * 32\<close> is an unsigned
  product. An index beyond the 32 elements of \<open>enabled_irqs\<close> and \<open>wakeup_irqs\<close> is
  undefined in C: a fault here.\<close>

function gic_suspend_loop ::
  "'h device \<Rightarrow> nat \<Rightarrow> iomem \<Rightarrow> u32 \<Rightarrow> 'h machine \<Rightarrow> fault + 'h machine" where
  "gic_suspend_loop dev gic_nr base i s =
     (if i * 32 < max_irq (gic_data s gic_nr) then
        if 32 \<le> unat i then Inl Array_out_of_bounds
        else gic_suspend_loop dev gic_nr base (i + 1) (gic_suspend_word dev gic_nr base i s)
      else Inr s)"
  by pat_completeness auto
termination
  by (relation "measure (\<lambda>(dev, gic_nr, base, i, s). 32 - unat i)")
     (auto simp: unat_word_ariths)

definition gic_suspend :: "'h device \<Rightarrow> nat \<Rightarrow> 'h machine \<Rightarrow> fault + int \<times> 'h machine" where
  "gic_suspend dev gic_nr s =
     (case gic_suspend_loop dev gic_nr (dist_base (gic_data s gic_nr)) 0 s of
        Inl f \<Rightarrow> Inl f
      | Inr s' \<Rightarrow> Inr (0, mb s'))"

definition gic_resume_word ::
  "'h device \<Rightarrow> nat \<Rightarrow> iomem \<Rightarrow> u32 \<Rightarrow> 'h machine \<Rightarrow> 'h machine" where
  "gic_resume_word dev gic_nr base i s =
     (let s = writel dev 0xffffffff
                (ptr_add (ptr_add base GIC_DIST_ENABLE_CLEAR) (i * 4)) s
      in writel dev (enabled_irqs (gic_data s gic_nr) (unat i))
           (ptr_add (ptr_add base GIC_DIST_ENABLE_SET) (i * 4)) s)"

function gic_resume_loop ::
  "'h device \<Rightarrow> nat \<Rightarrow> iomem \<Rightarrow> u32 \<Rightarrow> 'h machine \<Rightarrow> fault + 'h machine" where
  "gic_resume_loop dev gic_nr base i s =
     (if i * 32 < max_irq (gic_data s gic_nr) then
        if 32 \<le> unat i then Inl Array_out_of_bounds
        else gic_resume_loop dev gic_nr base (i + 1) (gic_resume_word dev gic_nr base i s)
      else Inr s)"
  by pat_completeness auto
termination
  by (relation "measure (\<lambda>(dev, gic_nr, base, i, s). 32 - unat i)")
     (auto simp: unat_word_ariths)

definition gic_resume :: "'h device \<Rightarrow> nat \<Rightarrow> 'h machine \<Rightarrow> fault + int \<times> 'h machine" where
  "gic_resume dev gic_nr s =
     (case gic_resume_loop dev gic_nr (dist_base (gic_data s gic_nr)) 0 s of
        Inl f \<Rightarrow> Inl f
      | Inr s' \<Rightarrow> Inr (0, mb s'))"

text \<open>\<open>gic_set_wake\<close>. \<open>WARN_ON\<close> prints a warning and execution goes on.
  \<open>get_irq_chip_data(d->irq)\<close> is the chip data of the line, the same element of
  \<open>gic_data\<close> that \<open>d\<close> points to.\<close>

definition gic_set_wake :: "irq_data \<Rightarrow> u32 \<Rightarrow> 'h machine \<Rightarrow> fault + int \<times> 'h machine" where
  "gic_set_wake d on s =
     (let gicirq = gic_irq d s;
          gic_nr = chip_data d;
          s = (if gicirq < 32 then emit Warn_on s else s);
          reg_offset = unat (gicirq div 32);
          bit_offset = unat (gicirq mod 32)
      in if 32 \<le> reg_offset then Inl Array_out_of_bounds
         else if on \<noteq> 0 then
           Inr (0, set_wakeup_irqs gic_nr reg_offset
                     (wakeup_irqs (gic_data s gic_nr) reg_offset OR push_bit bit_offset 1) s)
         else
           Inr (0, set_wakeup_irqs gic_nr reg_offset
                     (wakeup_irqs (gic_data s gic_nr) reg_offset AND NOT (push_bit bit_offset 1)) s))"

section \<open>Trigger type and affinity\<close>

definition gic_set_type :: "'h device \<Rightarrow> irq_data \<Rightarrow> u32 \<Rightarrow> 'h machine \<Rightarrow> int \<times> 'h machine" where
  "gic_set_type dev d type s =
     (let base = gic_dist_base d s;
          gicirq = gic_irq d s;
          enablemask = push_bit (unat (gicirq mod 32)) (1 :: u32);
          enableoff = (gicirq div 32) * 4;
          confmask = push_bit (unat ((gicirq mod 16) * 2)) (2 :: u32);
          confoff = (gicirq div 16) * 4
      in if gicirq < 16 then (- EINVAL, s)
         else if type \<noteq> IRQ_TYPE_LEVEL_HIGH \<and> type \<noteq> IRQ_TYPE_EDGE_RISING then (- EINVAL, s)
         else
           (case readl dev (ptr_add (ptr_add base GIC_DIST_CONFIG) confoff) (spin_lock s) of
              (val0, s1) \<Rightarrow>
                (let val = (if type = IRQ_TYPE_LEVEL_HIGH then val0 AND NOT confmask
                            else if type = IRQ_TYPE_EDGE_RISING then val0 OR confmask
                            else val0)
                 in case readl dev (ptr_add (ptr_add base GIC_DIST_ENABLE_SET) enableoff) s1 of
                      (en, s2) \<Rightarrow>
                        (let enabled = (en AND enablemask \<noteq> 0);
                             s3 = (if enabled
                                   then writel dev enablemask
                                          (ptr_add (ptr_add base GIC_DIST_ENABLE_CLEAR) enableoff) s2
                                   else s2);
                             s4 = writel dev val (ptr_add (ptr_add base GIC_DIST_CONFIG) confoff) s3;
                             s5 = (if enabled
                                   then writel dev enablemask
                                          (ptr_add (ptr_add base GIC_DIST_ENABLE_SET) enableoff) s4
                                   else s4);
                             s6 = spin_unlock s5;
                             s7 = (if type AND IRQ_TYPE_EDGE_RISING \<noteq> 0 \<and> 31 < gicirq
                                   then emit (Set_irq_handler_edge (irq d)) s6
                                   else s6)
                         in (0, s7)))))"

text \<open>
  Modelled from the spec: \<open>cpumask_first\<close> of \<open>linux/cpumask.h\<close>, which is not among the
  sources: the first CPU of the requested mask. The mask is its first word; \<open>nr\<close> is the
  number of CPU bits, returned when the mask is empty.
\<close>

definition cpumask_first :: "nat \<Rightarrow> u32 \<Rightarrow> u32" where
  "cpumask_first nr m =
     (case filter (bit m) [0..<nr] of [] \<Rightarrow> of_nat nr | c # _ \<Rightarrow> of_nat c)"

text \<open>\<open>gic_set_cpu\<close>, under \<open>CONFIG_SMP\<close>. It stores the CPU in \<open>d->node\<close>, so the
  updated \<open>irq_data\<close> is returned beside the state.\<close>

definition gic_set_cpu ::
  "'h device \<Rightarrow> nat \<Rightarrow> irq_data \<Rightarrow> u32 \<Rightarrow> bool \<Rightarrow> 'h machine \<Rightarrow> int \<times> irq_data \<times> 'h machine" where
  "gic_set_cpu dev nr d mask_val force s =
     (let reg = ptr_add (ptr_add (gic_dist_base d s) GIC_DIST_TARGET) (gic_irq d s AND NOT 3);
          shift = (irq d mod 4) * 8;
          cpu = cpumask_first nr mask_val;
          s = spin_lock s
      in if \<not> has_desc s (irq d) then (- EINVAL, d, spin_unlock s)
         else
           (case readl dev reg s of
              (v, s1) \<Rightarrow>
                (let val = v AND NOT (push_bit (unat shift) 0xff);
                     val = val OR push_bit (unat (cpu + shift)) 1;
                     s2 = writel dev val reg s1
                 in (0, d\<lparr>node := cpu\<rparr>, spin_unlock s2))))"

section \<open>Cascade handling\<close>

text \<open>\<open>gic_handle_cascade_irq\<close>. \<open>get_irq_data(irq)\<close> is the secondary controller wired to
  the line by \<open>gic_cascade_irq\<close>, given as \<open>chip_nr\<close>; \<open>desc\<close> is the \<open>irq_data\<close> of the
  descriptor; the primary chip's \<open>irq_ack\<close> and \<open>irq_unmask\<close> are calls through function
  pointers, recorded as events. \<open>nr_irqs\<close> is the platform's \<open>NR_IRQS\<close>.\<close>

definition gic_handle_cascade_irq ::
  "'h device \<Rightarrow> u32 \<Rightarrow> nat \<Rightarrow> u32 \<Rightarrow> irq_data \<Rightarrow> 'h machine \<Rightarrow> 'h machine" where
  "gic_handle_cascade_irq dev nr_irqs chip_nr irqn desc s =
     (let s = emit (Chip_irq_ack (irq desc)) s;
          s = spin_lock s
      in case readl dev (ptr_add (cpu_base (gic_data s chip_nr)) GIC_CPU_INTACK) s of
           (status, s1) \<Rightarrow>
             (let s2 = spin_unlock s1;
                  gic_irq = status AND 0x3ff;
                  cascade_irq = gic_irq + irq_offset (gic_data s2 chip_nr);
                  s3 = (if gic_irq = 1023 then s2
                        else if gic_irq < 32 \<or> 1020 < gic_irq \<or> nr_irqs \<le> cascade_irq
                             then emit (Do_bad_IRQ cascade_irq) s2
                             else emit (Generic_handle_irq cascade_irq) s2)
              in emit (Chip_irq_unmask (irq desc)) s3))"

section \<open>Inter-CPU signalling\<close>

text \<open>\<open>gic_raise_softirq\<close>: \<open>cpumap\<close> is the first word of the CPU mask, the source's
  \<open>map\<close>.\<close>

definition gic_raise_softirq :: "'h device \<Rightarrow> u32 \<Rightarrow> u32 \<Rightarrow> 'h machine \<Rightarrow> 'h machine" where
  "gic_raise_softirq dev cpumap irqn s =
     mb (writel dev (push_bit 16 cpumap OR irqn)
           (ptr_add (dist_base (gic_data s 0)) GIC_DIST_SOFTINT) s)"

section \<open>Initialisation\<close>

text \<open>The four register loops of \<open>gic_dist_init\<close>, from counter \<open>i\<close> up to \<open>gic_irqs\<close>.
  \<open>gic_irqs\<close> is at most 1020 when they run, so the unsigned counter cannot wrap: the
  counter and the bound are natural numbers here. \<open>i * 4 / 16\<close> is unsigned
  arithmetic.\<close>

function dist_init_config :: "'h device \<Rightarrow> iomem \<Rightarrow> nat \<Rightarrow> nat \<Rightarrow> 'h machine \<Rightarrow> 'h machine" where
  "dist_init_config dev base i gic_irqs s =
     (if i < gic_irqs
      then dist_init_config dev base (i + 16) gic_irqs
             (writel dev 0 (ptr_add (ptr_add base GIC_DIST_CONFIG) (of_nat (i * 4 div 16))) s)
      else s)"
  by pat_completeness auto
termination
  by (relation "measure (\<lambda>(dev, base, i, gic_irqs, s). gic_irqs - i)") auto

function dist_init_target ::
  "'h device \<Rightarrow> iomem \<Rightarrow> u32 \<Rightarrow> nat \<Rightarrow> nat \<Rightarrow> 'h machine \<Rightarrow> 'h machine" where
  "dist_init_target dev base cpumask i gic_irqs s =
     (if i < gic_irqs
      then dist_init_target dev base cpumask (i + 4) gic_irqs
             (writel dev cpumask (ptr_add (ptr_add base GIC_DIST_TARGET) (of_nat (i * 4 div 4))) s)
      else s)"
  by pat_completeness auto
termination
  by (relation "measure (\<lambda>(dev, base, cpumask, i, gic_irqs, s). gic_irqs - i)") auto

function dist_init_pri :: "'h device \<Rightarrow> iomem \<Rightarrow> nat \<Rightarrow> nat \<Rightarrow> 'h machine \<Rightarrow> 'h machine" where
  "dist_init_pri dev base i gic_irqs s =
     (if i < gic_irqs
      then dist_init_pri dev base (i + 4) gic_irqs
             (writel dev 0xa0a0a0a0 (ptr_add (ptr_add base GIC_DIST_PRI) (of_nat (i * 4 div 4))) s)
      else s)"
  by pat_completeness auto
termination
  by (relation "measure (\<lambda>(dev, base, i, gic_irqs, s). gic_irqs - i)") auto

function dist_init_disable :: "'h device \<Rightarrow> iomem \<Rightarrow> nat \<Rightarrow> nat \<Rightarrow> 'h machine \<Rightarrow> 'h machine" where
  "dist_init_disable dev base i gic_irqs s =
     (if i < gic_irqs
      then dist_init_disable dev base (i + 32) gic_irqs
             (writel dev 0xffffffff
                (ptr_add (ptr_add base GIC_DIST_ENABLE_CLEAR) (of_nat (i * 4 div 32))) s)
      else s)"
  by pat_completeness auto
termination
  by (relation "measure (\<lambda>(dev, base, i, gic_irqs, s). gic_irqs - i)") auto

text \<open>The loop of \<open>gic_dist_init\<close> that registers the lines \<open>irq_start\<close> up to \<open>irq_limit\<close>
  with the interrupt framework; the four calls are events. The counter is below
  \<open>irq_limit\<close> when it is incremented.\<close>

function dist_init_setup :: "nat \<Rightarrow> u32 \<Rightarrow> u32 \<Rightarrow> 'h machine \<Rightarrow> 'h machine" where
  "dist_init_setup gic_nr i irq_limit s =
     (if i < irq_limit
      then dist_init_setup gic_nr (i + 1) irq_limit
             (emit (Set_irq_flags i)
                (emit (Set_irq_handler_level i)
                   (emit (Set_irq_chip_data i gic_nr)
                      (emit (Set_irq_chip i) s))))
      else s)"
  by pat_completeness auto
termination
proof (relation "measure (\<lambda>(gic_nr, i, irq_limit, s). unat irq_limit - unat i)")
  show "wf (measure (\<lambda>(gic_nr, i, irq_limit, s). unat irq_limit - unat i))" by simp
next
  fix gic_nr :: nat and i irq_limit :: u32 and s :: "'a machine"
  assume a: "i < irq_limit"
  then have "unat i < unat irq_limit" by (simp add: word_less_nat_alt)
  moreover have "unat irq_limit < 2 ^ 32" using unsigned_less[of irq_limit, where 'a = nat] by simp
  ultimately have "unat (i + 1) = unat i + 1" by (simp add: unat_word_ariths)
  with \<open>unat i < unat irq_limit\<close>
  show "((gic_nr, i + 1, irq_limit,
           emit (Set_irq_flags i)
             (emit (Set_irq_handler_level i)
                (emit (Set_irq_chip_data i gic_nr) (emit (Set_irq_chip i) s)))),
          gic_nr, i, irq_limit, s)
        \<in> measure (\<lambda>(gic_nr, i, irq_limit, s). unat irq_limit - unat i)"
    by simp
qed

text \<open>\<open>gic_dist_init\<close>. \<open>gic\<close> is \<open>&gic_data[gic_nr]\<close>; \<open>cpu\<close> is \<open>smp_processor_id()\<close> and
  \<open>nr_irqs\<close> the platform's \<open>NR_IRQS\<close>.\<close>

definition gic_dist_init ::
  "'h device \<Rightarrow> u32 \<Rightarrow> nat \<Rightarrow> nat \<Rightarrow> u32 \<Rightarrow> 'h machine \<Rightarrow> 'h machine" where
  "gic_dist_init dev nr_irqs cpu gic_nr irq_start s =
     (let base = dist_base (gic_data s gic_nr);
          cpumask = push_bit cpu (1 :: u32);
          cpumask = cpumask OR push_bit 8 cpumask;
          cpumask = cpumask OR push_bit 16 cpumask;
          s = writel dev 0 (ptr_add base GIC_DIST_CTRL) s
      in case readl dev (ptr_add base GIC_DIST_CTR) s of
           (ctr, s) \<Rightarrow>
             (let gic_irqs = ctr AND 0x1f;
                  gic_irqs = (gic_irqs + 1) * 32;
                  gic_irqs = (if 1020 < gic_irqs then 1020 else gic_irqs);
                  s = dist_init_config dev base 32 (unat gic_irqs) s;
                  s = dist_init_target dev base cpumask 32 (unat gic_irqs) s;
                  s = dist_init_pri dev base 32 (unat gic_irqs) s;
                  s = dist_init_disable dev base 32 (unat gic_irqs) s;
                  irq_limit = irq_offset (gic_data s gic_nr) + gic_irqs;
                  s = (if nr_irqs < irq_limit then emit Warn_on s else s);
                  irq_limit = (if nr_irqs < irq_limit then nr_irqs else irq_limit);
                  s = dist_init_setup gic_nr irq_start irq_limit s;
                  s = s\<lparr>gic_data := (gic_data s)
                        (gic_nr := (gic_data s gic_nr)\<lparr>max_irq := gic_irqs\<rparr>)\<rparr>;
                  s = writel dev 1 (ptr_add base GIC_DIST_CTRL) s
              in mb s))"

text \<open>The priority loop of \<open>gic_cpu_init\<close>; its counter is an \<open>int\<close> that runs from 0 to
  28. \<open>dbase\<close> is the source's local \<open>dist_base\<close>.\<close>

function cpu_init_pri :: "'h device \<Rightarrow> iomem \<Rightarrow> nat \<Rightarrow> 'h machine \<Rightarrow> 'h machine" where
  "cpu_init_pri dev dbase i s =
     (if i < 32
      then cpu_init_pri dev dbase (i + 4)
             (writel dev 0xa0a0a0a0
                (ptr_add (ptr_add dbase GIC_DIST_PRI) (of_nat (i * 4 div 4))) s)
      else s)"
  by pat_completeness auto
termination
  by (relation "measure (\<lambda>(dev, dbase, i, s). 32 - i)") auto

definition gic_cpu_init :: "'h device \<Rightarrow> nat \<Rightarrow> 'h machine \<Rightarrow> 'h machine" where
  "gic_cpu_init dev gic_nr s =
     (let dbase = dist_base (gic_data s gic_nr);
          base = cpu_base (gic_data s gic_nr);
          s = writel dev 0xffff0000 (ptr_add dbase GIC_DIST_ENABLE_CLEAR) s;
          s = writel dev 0x0000ffff (ptr_add dbase GIC_DIST_ENABLE_SET) s;
          s = cpu_init_pri dev dbase 0 s;
          s = writel dev 0xf0 (ptr_add base GIC_CPU_PRIMASK) s;
          s = writel dev 1 (ptr_add base GIC_CPU_CTRL) s
      in mb s)"

text \<open>\<open>gic_init\<close>. \<open>max_gic_nr\<close> is \<open>MAX_GIC_NR\<close>; \<open>BUG_ON\<close> stops the kernel.\<close>

definition gic_init ::
  "'h device \<Rightarrow> nat \<Rightarrow> u32 \<Rightarrow> nat \<Rightarrow> nat \<Rightarrow> u32 \<Rightarrow> iomem \<Rightarrow> iomem \<Rightarrow> 'h machine
     \<Rightarrow> fault + 'h machine" where
  "gic_init dev max_gic_nr nr_irqs cpu gic_nr irq_start dist_base_arg cpu_base_arg s =
     (if max_gic_nr \<le> gic_nr then Inl Bug
      else
        (let s = s\<lparr>gic_data := (gic_data s)
                   (gic_nr := (gic_data s gic_nr)
                      \<lparr>irq_offset := (irq_start - 1) AND NOT 31,
                       dist_base := dist_base_arg,
                       cpu_base := cpu_base_arg\<rparr>)\<rparr>;
             s = (if gic_nr = 0 then s\<lparr>gic_cpu_base_addr := cpu_base_arg\<rparr> else s);
             s = gic_dist_init dev nr_irqs cpu gic_nr irq_start s
         in Inr (gic_cpu_init dev gic_nr s)))"

section \<open>Observations on a run\<close>

text \<open>The events an operation adds to the trace of the state it starts in.\<close>

definition new_events :: "'h machine \<Rightarrow> 'h machine \<Rightarrow> event list" where
  "new_events s s' = drop (length (trace s)) (trace s')"

text \<open>Lock discipline on a sequence of events: every register access happens while
  \<open>irq_controller_lock\<close> is held. The flag says whether the lock is held at the start.\<close>

fun locked :: "bool \<Rightarrow> event list \<Rightarrow> bool" where
  "locked held [] = True"
| "locked held (Spin_lock # es) = locked True es"
| "locked held (Spin_unlock # es) = locked False es"
| "locked held (Readl a v # es) = (held \<and> locked held es)"
| "locked held (Writel v a # es) = (held \<and> locked held es)"
| "locked held (e # es) = locked held es"

text \<open>Whether the lock is held after a sequence of events.\<close>

fun held_after :: "bool \<Rightarrow> event list \<Rightarrow> bool" where
  "held_after held [] = held"
| "held_after held (Spin_lock # es) = held_after True es"
| "held_after held (Spin_unlock # es) = held_after False es"
| "held_after held (e # es) = held_after held es"

fun is_access :: "event \<Rightarrow> bool" where
  "is_access (Readl a v) = True"
| "is_access (Writel v a) = True"
| "is_access e = False"

section \<open>The distributor's registers\<close>

text \<open>
  The driver's sequences rely on how the distributor answers, which is hardware and not
  code of the driver. The claims about the resulting hardware state are stated on this
  device: per window, one enable bit per line (32 lines a word) that a write to
  Enable-Set sets where the written bit is 1, that a write to Enable-Clear clears where
  the written bit is 1, and that both registers read back; the config words (2 bits a
  line) and the target words (a byte a line) are plain storage. Every bit is taken as
  implemented. Other offsets read as 0 and ignore writes.
\<close>

record dist_regs =
  enable :: "nat \<Rightarrow> u32"
  config :: "nat \<Rightarrow> u32"
  target :: "nat \<Rightarrow> u32"

type_synonym dist_hw = "nat \<Rightarrow> dist_regs"

definition dist_readl :: "dist_hw \<Rightarrow> iomem \<Rightarrow> u32 \<times> dist_hw" where
  "dist_readl h a =
     (let r = h (fst a); off = unat (snd a)
      in if 0x100 \<le> off \<and> off < 0x180 then (enable r ((off - 0x100) div 4), h)
         else if 0x180 \<le> off \<and> off < 0x200 then (enable r ((off - 0x180) div 4), h)
         else if 0x800 \<le> off \<and> off < 0xc00 then (target r ((off - 0x800) div 4), h)
         else if 0xc00 \<le> off \<and> off < 0xd00 then (config r ((off - 0xc00) div 4), h)
         else (0, h))"

definition dist_writel :: "dist_hw \<Rightarrow> iomem \<Rightarrow> u32 \<Rightarrow> dist_hw" where
  "dist_writel h a v =
     (let w = fst a; r = h w; off = unat (snd a)
      in if 0x100 \<le> off \<and> off < 0x180 then
           (let i = (off - 0x100) div 4
            in h(w := r\<lparr>enable := (enable r)(i := enable r i OR v)\<rparr>))
         else if 0x180 \<le> off \<and> off < 0x200 then
           (let i = (off - 0x180) div 4
            in h(w := r\<lparr>enable := (enable r)(i := enable r i AND NOT v)\<rparr>))
         else if 0x800 \<le> off \<and> off < 0xc00 then
           h(w := r\<lparr>target := (target r)((off - 0x800) div 4 := v)\<rparr>)
         else if 0xc00 \<le> off \<and> off < 0xd00 then
           h(w := r\<lparr>config := (config r)((off - 0xc00) div 4 := v)\<rparr>)
         else h)"

definition dist_dev :: "dist_hw device" where
  "dist_dev = \<lparr>dev_readl = dist_readl, dev_writel = dist_writel\<rparr>"

text \<open>A device that answers every read with the same value and ignores writes.\<close>

definition const_dev :: "u32 \<Rightarrow> unit device" where
  "const_dev v = \<lparr>dev_readl = (\<lambda>h a. (v, h)), dev_writel = (\<lambda>h a x. h)\<rparr>"

section \<open>Example states\<close>

definition example_chip :: gic_chip_data where
  "example_chip =
     \<lparr>irq_offset = 32, dist_base = (0, 0), cpu_base = (1, 0), max_irq = 64,
      wakeup_irqs = (\<lambda>i. if i = 1 then 1 else 0), enabled_irqs = (\<lambda>i. 0)\<rparr>"

definition example_regs :: dist_regs where
  "example_regs = \<lparr>enable = (\<lambda>i. 0), config = (\<lambda>i. if i = 1 then 1 else 0), target = (\<lambda>i. 0)\<rparr>"

definition example_machine :: "dist_hw machine" where
  "example_machine =
     \<lparr>hw = (\<lambda>w. example_regs), gic_data = (\<lambda>n. example_chip),
      gic_cpu_base_addr = (1, 0), has_desc = (\<lambda>n. True), trace = []\<rparr>"

definition example_machine_unit :: "unit machine" where
  "example_machine_unit =
     \<lparr>hw = (), gic_data = (\<lambda>n. example_chip), gic_cpu_base_addr = (1, 0),
      has_desc = (\<lambda>n. True), trace = []\<rparr>"

definition example_line :: "u32 \<Rightarrow> irq_data" where
  "example_line n = \<lparr>irq = n, node = 0, chip_data = 0\<rparr>"

section \<open>Basic facts\<close>

lemmas prims = emit_def spin_lock_def spin_unlock_def mb_def readl_def writel_def

lemmas ex_defs = example_machine_def example_chip_def example_regs_def example_line_def
  example_machine_unit_def
lemmas dist_defs = dist_dev_def dist_readl_def dist_writel_def ptr_add_def
  GIC_DIST_ENABLE_SET_def GIC_DIST_ENABLE_CLEAR_def GIC_DIST_CONFIG_def GIC_DIST_TARGET_def

lemma cond_nat: "unat i \<le> 32 \<Longrightarrow> (i * 32 < (m::u32)) = (unat i * 32 < unat m)"
  by (simp add: word_less_nat_alt unat_word_ariths)

lemma unat_suc32: "unat (i::u32) < 32 \<Longrightarrow> unat (i + 1) = Suc (unat i)"
  by (simp add: unat_word_ariths)

lemma dist_read_set:
  "unat i < 32 \<Longrightarrow>
   dev_readl dist_dev h (ptr_add (ptr_add (w, 0) GIC_DIST_ENABLE_SET) (i * 4)) =
     (enable (h w) (unat i), h)"
  by (simp add: dist_dev_def dist_readl_def ptr_add_def GIC_DIST_ENABLE_SET_def
      unat_word_ariths)

lemma dist_write_set:
  "unat i < 32 \<Longrightarrow>
   dev_writel dist_dev h (ptr_add (ptr_add (w, 0) GIC_DIST_ENABLE_SET) (i * 4)) v =
     h(w := (h w)\<lparr>enable := (enable (h w))(unat i := enable (h w) (unat i) OR v)\<rparr>)"
  by (simp add: dist_dev_def dist_writel_def ptr_add_def GIC_DIST_ENABLE_SET_def
      unat_word_ariths Let_def)

lemma dist_write_clear:
  "unat i < 32 \<Longrightarrow>
   dev_writel dist_dev h (ptr_add (ptr_add (w, 0) GIC_DIST_ENABLE_CLEAR) (i * 4)) v =
     h(w := (h w)\<lparr>enable := (enable (h w))(unat i := enable (h w) (unat i) AND NOT v)\<rparr>)"
  by (simp add: dist_dev_def dist_writel_def ptr_add_def GIC_DIST_ENABLE_CLEAR_def
      unat_word_ariths Let_def)

lemma all_ones: "(0xffffffff :: u32) = - 1"
  by simp

lemma clear_all: "(x :: u32) AND NOT 0xffffffff = 0"
  unfolding all_ones by simp

lemma clear_all': "(x :: u32) AND - 4294967296 = 0"
  using clear_all[of x] by simp

declare gic_suspend_loop.simps [simp del] gic_resume_loop.simps [simp del]

lemma suspend_word_dist:
  assumes "unat i < 32"
  shows "gic_data (gic_suspend_word dist_dev nr (w, 0) i s) =
       (gic_data s)(nr := (gic_data s nr)
          \<lparr>enabled_irqs := (enabled_irqs (gic_data s nr))(unat i := enable (hw s w) (unat i))\<rparr>)"
    and "hw (gic_suspend_word dist_dev nr (w, 0) i s) =
       (hw s)(w := (hw s w)
          \<lparr>enable := (enable (hw s w))(unat i := wakeup_irqs (gic_data s nr) (unat i))\<rparr>)"
  using assms
  by (simp_all add: gic_suspend_word_def Let_def prims set_enabled_irqs_def
      dist_read_set dist_write_set dist_write_clear clear_all')

lemma resume_word_dist:
  assumes "unat i < 32"
  shows "gic_data (gic_resume_word dist_dev nr (w, 0) i s) = gic_data s"
    and "hw (gic_resume_word dist_dev nr (w, 0) i s) =
       (hw s)(w := (hw s w)
          \<lparr>enable := (enable (hw s w))(unat i := enabled_irqs (gic_data s nr) (unat i))\<rparr>)"
  using assms
  by (simp_all add: gic_resume_word_def Let_def prims dist_write_set dist_write_clear clear_all')

lemma suspend_loop_dist:
  "max_irq (gic_data s nr) \<le> 1024 \<Longrightarrow> unat i \<le> 32 \<Longrightarrow>
   \<exists>s'. gic_suspend_loop dist_dev nr (w, 0) i s = Inr s' \<and>
     (\<forall>j. enable (hw s' w) j =
        (if unat i \<le> j \<and> j * 32 < unat (max_irq (gic_data s nr))
         then wakeup_irqs (gic_data s nr) j else enable (hw s w) j)) \<and>
     (\<forall>j. enabled_irqs (gic_data s' nr) j =
        (if unat i \<le> j \<and> j * 32 < unat (max_irq (gic_data s nr))
         then enable (hw s w) j else enabled_irqs (gic_data s nr) j)) \<and>
     wakeup_irqs (gic_data s' nr) = wakeup_irqs (gic_data s nr) \<and>
     max_irq (gic_data s' nr) = max_irq (gic_data s nr) \<and>
     dist_base (gic_data s' nr) = dist_base (gic_data s nr)"
proof (induction dist_dev nr "(w, 0 :: u32)" i s rule: gic_suspend_loop.induct)
  case (1 gic_nr i s)
  let ?m = "max_irq (gic_data s gic_nr)"
  have m: "unat ?m \<le> 1024" using "1.prems"(1) by (simp add: word_le_nat_alt)
  show ?case
  proof (cases "i * 32 < ?m")
    case False
    then have "\<And>j. unat i \<le> j \<Longrightarrow> \<not> j * 32 < unat ?m"
      using "1.prems"(2) by (simp add: cond_nat)
    with False show ?thesis
      by (subst gic_suspend_loop.simps gic_suspend_word_def Let_def) auto
  next
    case True
    then have lt: "unat i * 32 < unat ?m" using "1.prems"(2) by (simp add: cond_nat)
    with m have i32: "unat i < 32" by simp
    let ?s2 = "gic_suspend_word dist_dev gic_nr (w, 0) i s"
    note g2 = suspend_word_dist(1)[OF i32, of gic_nr w s]
    note h2 = suspend_word_dist(2)[OF i32, of gic_nr w s]
    have not_le_32: "\<not> 32 \<le> unat i" using i32 by simp
    have p1: "max_irq (gic_data ?s2 gic_nr) \<le> 1024" using "1.prems"(1) by (simp add: g2)
    have p2: "unat (i + 1) \<le> 32" using i32 by (simp add: unat_suc32)
    from "1.hyps"[OF True not_le_32 p1 p2]
    obtain s' where IH: "gic_suspend_loop dist_dev gic_nr (w, 0) (i + 1) ?s2 = Inr s'"
      "\<And>j. enable (hw s' w) j =
        (if unat (i + 1) \<le> j \<and> j * 32 < unat (max_irq (gic_data ?s2 gic_nr))
         then wakeup_irqs (gic_data ?s2 gic_nr) j else enable (hw ?s2 w) j)"
      "\<And>j. enabled_irqs (gic_data s' gic_nr) j =
        (if unat (i + 1) \<le> j \<and> j * 32 < unat (max_irq (gic_data ?s2 gic_nr))
         then enable (hw ?s2 w) j else enabled_irqs (gic_data ?s2 gic_nr) j)"
      "wakeup_irqs (gic_data s' gic_nr) = wakeup_irqs (gic_data ?s2 gic_nr)"
      "max_irq (gic_data s' gic_nr) = max_irq (gic_data ?s2 gic_nr)"
      "dist_base (gic_data s' gic_nr) = dist_base (gic_data ?s2 gic_nr)"
      by blast
    have e: "gic_suspend_loop dist_dev gic_nr (w, 0) i s = Inr s'"
      by (subst gic_suspend_loop.simps gic_suspend_word_def Let_def) (simp add: True not_le_32 IH(1))
    have a: "\<And>j. enable (hw s' w) j =
        (if unat i \<le> j \<and> j * 32 < unat ?m
         then wakeup_irqs (gic_data s gic_nr) j else enable (hw s w) j)"
      using lt i32 unfolding IH(2) g2 h2 by (auto simp: unat_suc32 le_Suc_eq Suc_le_eq)
    have b: "\<And>j. enabled_irqs (gic_data s' gic_nr) j =
        (if unat i \<le> j \<and> j * 32 < unat ?m
         then enable (hw s w) j else enabled_irqs (gic_data s gic_nr) j)"
      using lt i32 unfolding IH(3) g2 h2 by (auto simp: unat_suc32 le_Suc_eq Suc_le_eq)
    show ?thesis
      using e a b IH(4-6) by (simp add: g2)
  qed
qed

lemma resume_loop_dist:
  "max_irq (gic_data s nr) \<le> 1024 \<Longrightarrow> unat i \<le> 32 \<Longrightarrow>
   \<exists>s'. gic_resume_loop dist_dev nr (w, 0) i s = Inr s' \<and>
     (\<forall>j. enable (hw s' w) j =
        (if unat i \<le> j \<and> j * 32 < unat (max_irq (gic_data s nr))
         then enabled_irqs (gic_data s nr) j else enable (hw s w) j)) \<and>
     gic_data s' = gic_data s"
proof (induction dist_dev nr "(w, 0 :: u32)" i s rule: gic_resume_loop.induct)
  case (1 gic_nr i s)
  let ?m = "max_irq (gic_data s gic_nr)"
  have m: "unat ?m \<le> 1024" using "1.prems"(1) by (simp add: word_le_nat_alt)
  show ?case
  proof (cases "i * 32 < ?m")
    case False
    then have "\<And>j. unat i \<le> j \<Longrightarrow> \<not> j * 32 < unat ?m"
      using "1.prems"(2) by (simp add: cond_nat)
    with False show ?thesis
      by (subst gic_resume_loop.simps) auto
  next
    case True
    then have lt: "unat i * 32 < unat ?m" using "1.prems"(2) by (simp add: cond_nat)
    with m have i32: "unat i < 32" by simp
    let ?s2 = "gic_resume_word dist_dev gic_nr (w, 0) i s"
    note g2 = resume_word_dist(1)[OF i32, of gic_nr w s]
    note h2 = resume_word_dist(2)[OF i32, of gic_nr w s]
    have not_le_32: "\<not> 32 \<le> unat i" using i32 by simp
    have p1: "max_irq (gic_data ?s2 gic_nr) \<le> 1024" using "1.prems"(1) by (simp add: g2)
    have p2: "unat (i + 1) \<le> 32" using i32 by (simp add: unat_suc32)
    from "1.hyps"[OF True not_le_32 p1 p2]
    obtain s' where IH: "gic_resume_loop dist_dev gic_nr (w, 0) (i + 1) ?s2 = Inr s'"
      "\<And>j. enable (hw s' w) j =
        (if unat (i + 1) \<le> j \<and> j * 32 < unat (max_irq (gic_data ?s2 gic_nr))
         then enabled_irqs (gic_data ?s2 gic_nr) j else enable (hw ?s2 w) j)"
      "gic_data s' = gic_data ?s2"
      by blast
    have e: "gic_resume_loop dist_dev gic_nr (w, 0) i s = Inr s'"
      by (subst gic_resume_loop.simps) (simp add: True not_le_32 IH(1))
    have a: "\<And>j. enable (hw s' w) j =
        (if unat i \<le> j \<and> j * 32 < unat ?m
         then enabled_irqs (gic_data s gic_nr) j else enable (hw s w) j)"
      using lt i32 unfolding IH(2) g2 h2 by (auto simp: unat_suc32 le_Suc_eq Suc_le_eq)
    show ?thesis
      using e a IH(3) by (simp add: g2)
  qed
qed

section \<open>Suspend and resume\<close>

text \<open>
  Claim C1, as the code has it. On the distributor device, for a controller with at most
  1024 lines whose \<open>dist_base\<close> is the start of window \<open>w\<close>, and for every content \<open>E\<close>
  of the enable words and every \<open>wakeup_irqs\<close> \<open>W\<close>: \<open>gic_suspend\<close> returns 0 and
  leaves, in every word below \<open>max_irq\<close>, the enable word equal to \<open>W\<close> (the wake set
  itself, not its intersection with \<open>E\<close>) and \<open>enabled_irqs\<close> equal to \<open>E\<close>; the
  \<open>gic_resume\<close> that follows returns 0 and leaves every enable word equal to \<open>E\<close>.
\<close>

theorem suspend_resume_round_trip:
  assumes "max_irq (gic_data s nr) \<le> 1024" and "dist_base (gic_data s nr) = (w, 0)"
  shows "\<exists>s1 s2.
     gic_suspend dist_dev nr s = Inr (0, s1) \<and>
     gic_resume dist_dev nr s1 = Inr (0, s2) \<and>
     (\<forall>j. j * 32 < unat (max_irq (gic_data s nr)) \<longrightarrow>
        enable (hw s1 w) j = wakeup_irqs (gic_data s nr) j \<and>
        enabled_irqs (gic_data s1 nr) j = enable (hw s w) j) \<and>
     (\<forall>j. enable (hw s2 w) j = enable (hw s w) j)"
proof -
  from suspend_loop_dist[OF assms(1), of 0 w]
  obtain s' where S: "gic_suspend_loop dist_dev nr (w, 0) 0 s = Inr s'"
    "\<And>j. enable (hw s' w) j =
        (if j * 32 < unat (max_irq (gic_data s nr))
         then wakeup_irqs (gic_data s nr) j else enable (hw s w) j)"
    "\<And>j. enabled_irqs (gic_data s' nr) j =
        (if j * 32 < unat (max_irq (gic_data s nr))
         then enable (hw s w) j else enabled_irqs (gic_data s nr) j)"
     "max_irq (gic_data s' nr) = max_irq (gic_data s nr)"
     "dist_base (gic_data s' nr) = dist_base (gic_data s nr)"
    by auto
  let ?s1 = "mb s'"
  have s1: "gic_suspend dist_dev nr s = Inr (0, ?s1)"
    by (simp add: gic_suspend_def assms(2) S(1))
  have m1: "max_irq (gic_data ?s1 nr) \<le> 1024" using assms(1) S(4) by (simp add: prims)
  from resume_loop_dist[OF m1, of 0 w]
  obtain s'' where R: "gic_resume_loop dist_dev nr (w, 0) 0 ?s1 = Inr s''"
    "\<And>j. enable (hw s'' w) j =
        (if j * 32 < unat (max_irq (gic_data ?s1 nr))
         then enabled_irqs (gic_data ?s1 nr) j else enable (hw ?s1 w) j)"
    by auto
  have db: "dist_base (gic_data ?s1 nr) = (w, 0)"
    using S(5) assms(2) by (simp add: prims)
  have s2: "gic_resume dist_dev nr ?s1 = Inr (0, mb s'')"
    by (simp add: gic_resume_def db R(1))
  have "\<And>j. enable (hw (mb s'') w) j = enable (hw s w) j"
    using R(2) S(2,3,4) by (simp add: prims)
  moreover have "\<And>j. j * 32 < unat (max_irq (gic_data s nr)) \<Longrightarrow>
        enable (hw ?s1 w) j = wakeup_irqs (gic_data s nr) j \<and>
        enabled_irqs (gic_data ?s1 nr) j = enable (hw s w) j"
    using S(2,3) by (simp add: prims)
  ultimately show ?thesis using s1 s2 by blast
qed

theorem suspend_resume_round_trip_witness:
  "max_irq (gic_data example_machine 0) \<le> 1024 \<and>
   dist_base (gic_data example_machine 0) = (0, 0) \<and>
   (1 :: nat) * 32 < unat (max_irq (gic_data example_machine 0)) \<and>
   \<not> isl (gic_suspend dist_dev 0 example_machine) \<and>
   enable (hw (snd (projr (gic_suspend dist_dev 0 example_machine))) 0) 1 =
     wakeup_irqs (gic_data example_machine 0) 1 \<and>
   enabled_irqs (gic_data (snd (projr (gic_suspend dist_dev 0 example_machine))) 0) 1 =
     enable (hw example_machine 0) 1 \<and>
   \<not> isl (gic_resume dist_dev 0 (snd (projr (gic_suspend dist_dev 0 example_machine)))) \<and>
   enable (hw (snd (projr (gic_resume dist_dev 0
     (snd (projr (gic_suspend dist_dev 0 example_machine)))))) 0) 1 =
     enable (hw example_machine 0) 1"
proof -
  have a: "max_irq (gic_data example_machine 0) \<le> 1024" by (simp add: ex_defs)
  have b: "dist_base (gic_data example_machine 0) = (0, 0)" by (simp add: ex_defs)
  have c: "(1 :: nat) * 32 < unat (max_irq (gic_data example_machine 0))"
    by (simp add: ex_defs)
  from suspend_resume_round_trip[OF a b] obtain s1 s2 where
    r: "gic_suspend dist_dev 0 example_machine = Inr (0, s1)"
       "gic_resume dist_dev 0 s1 = Inr (0, s2)"
       "\<And>j. j * 32 < unat (max_irq (gic_data example_machine 0)) \<Longrightarrow>
          enable (hw s1 0) j = wakeup_irqs (gic_data example_machine 0) j \<and>
          enabled_irqs (gic_data s1 0) j = enable (hw example_machine 0) j"
       "\<And>j. enable (hw s2 0) j = enable (hw example_machine 0) j"
    by blast
  show ?thesis using a b c r(3)[OF c] r(4)[of 1] by (simp add: r(1,2))
qed

text \<open>Claim C1 as stated fails: with no line enabled and line 32 in the wake set,
  \<open>gic_suspend\<close> leaves line 32 enabled, although the intersection is empty.\<close>

theorem suspend_enables_wake_set_counterexample:
  "\<not> isl (gic_suspend dist_dev 0 example_machine) \<and>
   enable (hw (snd (projr (gic_suspend dist_dev 0 example_machine))) 0) 1 = 1 \<and>
   enable (hw example_machine 0) 1 AND wakeup_irqs (gic_data example_machine 0) 1 = 0"
  by (simp add: gic_suspend_def ex_defs prims set_enabled_irqs_def dist_defs
      gic_suspend_loop.simps gic_suspend_word_def Let_def)

section \<open>Trigger type\<close>

lemma unat_div32: "g < 1024 \<Longrightarrow> unat ((g :: u32) div 32) < 32"
  by (simp add: unat_div word_less_nat_alt)

lemma unat_div16: "g < 1024 \<Longrightarrow> unat ((g :: u32) div 16) < 64"
  by (simp add: unat_div word_less_nat_alt)

lemma dist_read_config:
  "unat i < 64 \<Longrightarrow>
   dev_readl dist_dev h (ptr_add (ptr_add (w, 0) GIC_DIST_CONFIG) (i * 4)) =
     (config (h w) (unat i), h)"
  by (simp add: dist_dev_def dist_readl_def ptr_add_def GIC_DIST_CONFIG_def
      unat_word_ariths)

lemma dist_write_config:
  "unat i < 64 \<Longrightarrow>
   dev_writel dist_dev h (ptr_add (ptr_add (w, 0) GIC_DIST_CONFIG) (i * 4)) v =
     h(w := (h w)\<lparr>config := (config (h w))(unat i := v)\<rparr>)"
  by (simp add: dist_dev_def dist_writel_def ptr_add_def GIC_DIST_CONFIG_def
      unat_word_ariths Let_def)

lemma single_bit_restore:
  "(e :: u32) AND push_bit p 1 \<noteq> 0 \<Longrightarrow> (e AND NOT (push_bit p 1)) OR push_bit p 1 = e"
proof -
  assume a: "e AND push_bit p 1 \<noteq> 0"
  have "bit e p"
  proof (rule ccontr)
    assume "\<not> bit e p"
    then have "e AND push_bit p 1 = 0"
      by (intro bit_eqI) (auto simp: bit_simps)
    with a show False by simp
  qed
  then show ?thesis
    by (intro bit_eqI) (auto simp: bit_simps)
qed

lemma single_bit_restore_pow:
  "(e :: u32) AND 2 ^ p \<noteq> 0 \<Longrightarrow> (e AND NOT (2 ^ p)) OR 2 ^ p = e"
  using single_bit_restore[of e p] by simp

lemma set_type_dist:
  assumes base: "dist_base (gic_data s (chip_data d)) = (w, 0)"
    and lo: "16 \<le> gic_irq d s" and hi: "gic_irq d s < 1024"
    and ty: "type = IRQ_TYPE_LEVEL_HIGH \<or> type = IRQ_TYPE_EDGE_RISING"
  shows "\<exists>s'. gic_set_type dist_dev d type s = (0, s') \<and>
     gic_data s' = gic_data s \<and>
     (\<forall>j. enable (hw s' w) j = enable (hw s w) j) \<and>
     (\<forall>j. config (hw s' w) j =
        (if j = unat (gic_irq d s div 16)
         then (if type = IRQ_TYPE_LEVEL_HIGH
               then config (hw s w) j AND NOT (push_bit (unat ((gic_irq d s mod 16) * 2)) 2)
               else config (hw s w) j OR push_bit (unat ((gic_irq d s mod 16) * 2)) 2)
         else config (hw s w) j))"
proof -
  have n16: "\<not> gic_irq d s < 16" using lo by (simp add: not_less)
  note a = unat_div32[OF hi] unat_div16[OF hi]
  show ?thesis
    using ty n16 a
    by (auto simp: gic_set_type_def Let_def gic_dist_base_def base prims
        dist_read_config dist_write_config dist_read_set dist_write_set dist_write_clear
        single_bit_restore_pow IRQ_TYPE_LEVEL_HIGH_def IRQ_TYPE_EDGE_RISING_def)
qed

lemma confmask_bit: "q < 31 \<Longrightarrow> bit (push_bit q (2 :: u32)) n \<longleftrightarrow> n = q + 1"
proof -
  assume q: "q < 31"
  have "push_bit q (2 :: u32) = 2 ^ (q + 1)" by (simp add: push_bit_eq_mult)
  then show ?thesis using q by (auto simp: bit_simps)
qed

lemma unat_field: "unat (((g :: u32) mod 16) * 2) = 2 * (unat g mod 16)"
  by (simp add: unat_word_ariths unat_mod)

text \<open>
  Claim C2, as the code has it. On the distributor device, for a line with
  \<open>16 \<le> local_line < 1024\<close> and every content of the config registers:
  \<open>gic_set_type\<close> with \<open>EdgeRising\<close> returns 0 and sets the high bit of the line's 2-bit
  field; \<open>gic_set_type\<close> with \<open>LevelHigh\<close> after it returns 0 and clears that bit; every
  other bit of the config word (the low bit of the line's field and the fields of the
  15 other lines) and every other config word keep their initial value. So the field
  reads 10, then 00, exactly when its low bit was 0 at the start.
\<close>

theorem set_type_config_field:
  assumes base: "dist_base (gic_data s (chip_data d)) = (w, 0)"
    and lo: "16 \<le> gic_irq d s" and hi: "gic_irq d s < 1024"
  shows "\<exists>s1 s2.
     gic_set_type dist_dev d IRQ_TYPE_EDGE_RISING s = (0, s1) \<and>
     gic_set_type dist_dev d IRQ_TYPE_LEVEL_HIGH s1 = (0, s2) \<and>
     bit (config (hw s1 w) (unat (gic_irq d s div 16))) (2 * (unat (gic_irq d s) mod 16) + 1) \<and>
     \<not> bit (config (hw s2 w) (unat (gic_irq d s div 16))) (2 * (unat (gic_irq d s) mod 16) + 1) \<and>
     (\<forall>n. n \<noteq> 2 * (unat (gic_irq d s) mod 16) + 1 \<longrightarrow>
        bit (config (hw s1 w) (unat (gic_irq d s div 16))) n =
          bit (config (hw s w) (unat (gic_irq d s div 16))) n \<and>
        bit (config (hw s2 w) (unat (gic_irq d s div 16))) n =
          bit (config (hw s w) (unat (gic_irq d s div 16))) n) \<and>
     (\<forall>j. j \<noteq> unat (gic_irq d s div 16) \<longrightarrow>
        config (hw s1 w) j = config (hw s w) j \<and> config (hw s2 w) j = config (hw s w) j)"
proof -
  let ?k = "unat (gic_irq d s div 16)"
  let ?m = "push_bit (unat ((gic_irq d s mod 16) * 2)) (2 :: u32)"
  have q: "2 * (unat (gic_irq d s) mod 16) < 31" by arith
  have mb: "\<And>n. bit ?m n \<longleftrightarrow> n = 2 * (unat (gic_irq d s) mod 16) + 1"
    unfolding unat_field by (rule confmask_bit[OF q])
  have ne: "IRQ_TYPE_EDGE_RISING \<noteq> IRQ_TYPE_LEVEL_HIGH"
    by (simp add: IRQ_TYPE_LEVEL_HIGH_def IRQ_TYPE_EDGE_RISING_def)
  from set_type_dist[OF base lo hi, of IRQ_TYPE_EDGE_RISING] ne
  obtain s1 where 1: "gic_set_type dist_dev d IRQ_TYPE_EDGE_RISING s = (0, s1)"
    "gic_data s1 = gic_data s"
    "\<And>j. config (hw s1 w) j = (if j = ?k then config (hw s w) j OR ?m else config (hw s w) j)"
    by auto
  have g: "gic_irq d s1 = gic_irq d s" by (simp add: gic_irq_def 1(2))
  have base1: "dist_base (gic_data s1 (chip_data d)) = (w, 0)" by (simp add: 1(2) base)
  from set_type_dist[OF base1, of IRQ_TYPE_LEVEL_HIGH] lo hi
  obtain s2 where 2: "gic_set_type dist_dev d IRQ_TYPE_LEVEL_HIGH s1 = (0, s2)"
    "\<And>j. config (hw s2 w) j = (if j = ?k then config (hw s1 w) j AND NOT ?m else config (hw s1 w) j)"
    unfolding g by auto
  have c1: "config (hw s1 w) ?k = config (hw s w) ?k OR ?m" by (simp add: 1(3))
  have c2: "config (hw s2 w) ?k = (config (hw s w) ?k OR ?m) AND NOT ?m" by (simp add: 2(2) 1(3))
  have o1: "\<And>j. j \<noteq> ?k \<Longrightarrow> config (hw s1 w) j = config (hw s w) j" by (simp add: 1(3))
  have o2: "\<And>j. j \<noteq> ?k \<Longrightarrow> config (hw s2 w) j = config (hw s w) j" by (simp add: 2(2) 1(3))
  have b1: "\<And>n. bit (config (hw s1 w) ?k) n =
      (bit (config (hw s w) ?k) n \<or> n = 2 * (unat (gic_irq d s) mod 16) + 1)"
    unfolding c1 by (simp add: bit_or_iff mb)
  have b2: "\<And>n. bit (config (hw s2 w) ?k) n =
      (bit (config (hw s w) ?k) n \<and> n \<noteq> 2 * (unat (gic_irq d s) mod 16) + 1)"
    unfolding c2 by (auto simp: bit_or_iff bit_and_iff bit_not_iff mb dest: bit_imp_le_length)
  show ?thesis
    using 1(1) 2(1) o1 o2 by (simp add: b1 b2)
qed

text \<open>Claim C2 as stated fails: line 16 with the low bit of its field set reads 11
  after \<open>EdgeRising\<close> and 01 after the \<open>LevelHigh\<close> that follows.\<close>

theorem set_type_config_field_counterexample:
  "fst (gic_set_type dist_dev (example_line 48) IRQ_TYPE_EDGE_RISING example_machine) = 0 \<and>
   gic_irq (example_line 48) example_machine = 16 \<and>
   config (hw example_machine 0) 1 = 1 \<and>
   config (hw (snd (gic_set_type dist_dev (example_line 48) IRQ_TYPE_EDGE_RISING
     example_machine)) 0) 1 AND 3 = 3 \<and>
   fst (gic_set_type dist_dev (example_line 48) IRQ_TYPE_LEVEL_HIGH
     (snd (gic_set_type dist_dev (example_line 48) IRQ_TYPE_EDGE_RISING example_machine))) = 0 \<and>
   config (hw (snd (gic_set_type dist_dev (example_line 48) IRQ_TYPE_LEVEL_HIGH
     (snd (gic_set_type dist_dev (example_line 48) IRQ_TYPE_EDGE_RISING example_machine)))) 0) 1
     AND 3 = 1"
  by (simp add: gic_set_type_def gic_irq_def gic_dist_base_def ex_defs prims dist_defs Let_def
      IRQ_TYPE_LEVEL_HIGH_def IRQ_TYPE_EDGE_RISING_def)

theorem set_type_config_field_witness:
  "dist_base (gic_data example_machine (chip_data (example_line 48))) = (0, 0) \<and>
   16 \<le> gic_irq (example_line 48) example_machine \<and>
   gic_irq (example_line 48) example_machine < 1024 \<and>
   bit (config (hw (snd (gic_set_type dist_dev (example_line 48) IRQ_TYPE_EDGE_RISING
     example_machine)) 0) 1) 1 \<and>
   \<not> bit (config (hw (snd (gic_set_type dist_dev (example_line 48) IRQ_TYPE_LEVEL_HIGH
     (snd (gic_set_type dist_dev (example_line 48) IRQ_TYPE_EDGE_RISING example_machine)))) 0) 1) 1 \<and>
   bit (config (hw (snd (gic_set_type dist_dev (example_line 48) IRQ_TYPE_LEVEL_HIGH
     (snd (gic_set_type dist_dev (example_line 48) IRQ_TYPE_EDGE_RISING example_machine)))) 0) 1) 0"
proof -
  have g: "gic_irq (example_line 48) example_machine = 16"
    by (simp add: gic_irq_def ex_defs)
  have a: "dist_base (gic_data example_machine (chip_data (example_line 48))) = (0, 0)"
    by (simp add: ex_defs)
  have b: "16 \<le> gic_irq (example_line 48) example_machine" by (simp add: g)
  have c: "gic_irq (example_line 48) example_machine < 1024" by (simp add: g)
  have e: "bit (config (hw example_machine 0) 1) 0" by (simp add: ex_defs)
  from set_type_config_field[OF a b c] obtain s1 s2 where
    r: "gic_set_type dist_dev (example_line 48) IRQ_TYPE_EDGE_RISING example_machine = (0, s1)"
       "gic_set_type dist_dev (example_line 48) IRQ_TYPE_LEVEL_HIGH s1 = (0, s2)"
       "bit (config (hw s1 0) 1) 1" "\<not> bit (config (hw s2 0) 1) 1"
       "\<And>n. n \<noteq> 1 \<Longrightarrow> bit (config (hw s2 0) 1) n = bit (config (hw example_machine 0) 1) n"
    unfolding g by auto
  show ?thesis using a b c r(3,4) r(5)[of 0] e by (simp add: r(1,2))
qed

text \<open>
  Claim C8. For a line with \<open>local_line < 16\<close> and any kind, and for any line with a kind
  that is neither \<open>LevelHigh\<close> nor \<open>EdgeRising\<close>, \<open>gic_set_type\<close> returns \<open>-EINVAL\<close> and the
  state is the one it started in: no register is read or written, on any device.
\<close>

theorem set_type_rejects:
  "gic_irq d s < 16 \<or> (type \<noteq> IRQ_TYPE_LEVEL_HIGH \<and> type \<noteq> IRQ_TYPE_EDGE_RISING) \<Longrightarrow>
   gic_set_type dev d type s = (- EINVAL, s)"
  by (auto simp: gic_set_type_def Let_def)

theorem set_type_rejects_witness:
  "gic_irq (example_line 40) example_machine < 16 \<and>
   gic_set_type dist_dev (example_line 40) IRQ_TYPE_EDGE_RISING example_machine =
     (- EINVAL, example_machine) \<and>
   (2 :: u32) \<noteq> IRQ_TYPE_LEVEL_HIGH \<and> (2 :: u32) \<noteq> IRQ_TYPE_EDGE_RISING \<and>
   gic_set_type dist_dev (example_line 72) 2 example_machine = (- EINVAL, example_machine)"
proof -
  have a: "gic_irq (example_line 40) example_machine < 16"
    by (simp add: gic_irq_def ex_defs)
  have b: "(2 :: u32) \<noteq> IRQ_TYPE_LEVEL_HIGH \<and> (2 :: u32) \<noteq> IRQ_TYPE_EDGE_RISING"
    by (simp add: IRQ_TYPE_LEVEL_HIGH_def IRQ_TYPE_EDGE_RISING_def)
  show ?thesis
    using a b
      set_type_rejects[where d = "example_line 40" and s = example_machine
        and dev = dist_dev and type = IRQ_TYPE_EDGE_RISING]
      set_type_rejects[where d = "example_line 72" and s = example_machine
        and dev = dist_dev and type = 2]
    by simp
qed

section \<open>Cascade\<close>

text \<open>
  Claim C6. On any device, \<open>gic_handle_cascade_irq\<close> first acks the primary line, then
  reads the secondary Interrupt-Acknowledge register under the lock, and ends by
  unmasking the primary line, on every path. With \<open>v\<close> the low 10 bits of the value read:
  \<open>v = 1023\<close> dispatches nothing; \<open>32 \<le> v \<le> 1020\<close> with \<open>v + irq_offset < NR_IRQS\<close> calls
  \<open>generic_handle_irq (v + irq_offset)\<close>; any other \<open>v\<close> goes to \<open>do_bad_IRQ\<close> and not to
  generic handling.
\<close>

theorem handle_cascade_events:
  "new_events s (gic_handle_cascade_irq dev nr_irqs chip_nr irqn desc s) =
     (let a = ptr_add (cpu_base (gic_data s chip_nr)) GIC_CPU_INTACK;
          status = fst (dev_readl dev (hw s) a);
          v = status AND 0x3ff;
          c = v + irq_offset (gic_data s chip_nr)
      in [Chip_irq_ack (irq desc), Spin_lock, Readl a status, Spin_unlock] @
         (if v = 1023 then []
          else if 32 \<le> v \<and> v \<le> 1020 \<and> c < nr_irqs then [Generic_handle_irq c]
          else [Do_bad_IRQ c]) @
         [Chip_irq_unmask (irq desc)])"
  by (simp add: gic_handle_cascade_irq_def new_events_def prims Let_def split: prod.splits)
     (auto simp: not_le not_less)

theorem handle_cascade_events_witness:
  "new_events example_machine_unit
     (gic_handle_cascade_irq (const_dev 40) 256 0 50 (example_line 50) example_machine_unit) =
   [Chip_irq_ack 50, Spin_lock, Readl (1, 0xc) 40, Spin_unlock, Generic_handle_irq 72,
    Chip_irq_unmask 50] \<and>
   new_events example_machine_unit
     (gic_handle_cascade_irq (const_dev 1023) 256 0 50 (example_line 50) example_machine_unit) =
   [Chip_irq_ack 50, Spin_lock, Readl (1, 0xc) 1023, Spin_unlock, Chip_irq_unmask 50] \<and>
   new_events example_machine_unit
     (gic_handle_cascade_irq (const_dev 5) 256 0 50 (example_line 50) example_machine_unit) =
   [Chip_irq_ack 50, Spin_lock, Readl (1, 0xc) 5, Spin_unlock, Do_bad_IRQ 37,
    Chip_irq_unmask 50]"
  using handle_cascade_events[of example_machine_unit "const_dev 40" 256 0 50 "example_line 50"]
    handle_cascade_events[of example_machine_unit "const_dev 1023" 256 0 50 "example_line 50"]
    handle_cascade_events[of example_machine_unit "const_dev 5" 256 0 50 "example_line 50"]
  by (simp add: ex_defs const_dev_def ptr_add_def GIC_CPU_INTACK_def Let_def)

section \<open>Software interrupts\<close>

text \<open>
  Claim C9. For every CPU mask word \<open>m\<close> and local line \<open>n < 1024\<close>, on any device,
  \<open>gic_raise_softirq\<close> makes one register write, of \<open>(m << 16) | n\<close> to the
  Software-Interrupt register of controller 0, followed by a barrier; the low 10 bits
  of the written word are \<open>n\<close> and, for \<open>c < 16\<close>, bit \<open>16 + c\<close> is set exactly when CPU \<open>c\<close>
  is in \<open>m\<close>.
\<close>

theorem raise_softirq_word:
  assumes "irqn < 1024" and "c < 16"
  shows "new_events s (gic_raise_softirq dev cpumap irqn s) =
       [Writel (push_bit 16 cpumap OR irqn) (ptr_add (dist_base (gic_data s 0)) GIC_DIST_SOFTINT),
        Mb] \<and>
     hw (gic_raise_softirq dev cpumap irqn s) =
       dev_writel dev (hw s) (ptr_add (dist_base (gic_data s 0)) GIC_DIST_SOFTINT)
         (push_bit 16 cpumap OR irqn) \<and>
     (push_bit 16 cpumap OR irqn) AND 0x3ff = irqn \<and>
     bit (push_bit 16 cpumap OR irqn) (16 + c) = bit cpumap c"
proof -
  have m: "(0x3ff :: u32) = mask 10" by (simp add: mask_eq_exp_minus_1)
  have n: "irqn AND mask 10 = irqn" using assms(1) by (intro less_mask_eq) simp
  have "push_bit 16 cpumap AND (mask 10 :: u32) = 0"
    by (rule bit_eqI) (auto simp: bit_simps)
  with n have low: "(push_bit 16 cpumap OR irqn) AND 0x3ff = irqn"
    unfolding m by (simp add: bit.conj_disj_distrib2)
  have "bit irqn (16 + c) = bit (irqn AND mask 10) (16 + c)" using n by simp
  also have "\<dots> = False" by (simp add: bit_simps)
  finally have high: "bit (push_bit 16 cpumap OR irqn) (16 + c) = bit cpumap c"
    using assms(2) by (simp add: bit_simps)
  show ?thesis
    using low high by (simp add: gic_raise_softirq_def new_events_def prims)
qed

theorem raise_softirq_word_witness:
  "(9 :: u32) < 1024 \<and> (2 :: nat) < 16 \<and> (5 :: nat) < 16 \<and>
   new_events example_machine_unit (gic_raise_softirq (const_dev 0) 36 9 example_machine_unit) =
     [Writel 0x240009 (0, 0xf00), Mb] \<and>
   (0x240009 :: u32) AND 0x3ff = 9 \<and>
   bit (0x240009 :: u32) 18 \<and> bit (0x240009 :: u32) 21"
proof -
  have a: "(9 :: u32) < 1024" by simp
  have v: "push_bit 16 (36 :: u32) OR 9 = 0x240009" by simp
  have b2: "bit (36 :: u32) 2" by (simp add: bit_iff_odd)
  have b5: "bit (36 :: u32) 5" by (simp add: bit_iff_odd)
  have c2: "(2 :: nat) < 16" and c5: "(5 :: nat) < 16" by simp_all
  show ?thesis
    using raise_softirq_word[OF a c2, of example_machine_unit "const_dev 0" 36]
      raise_softirq_word[OF a c5, of example_machine_unit "const_dev 0" 36] b2 b5
    unfolding v
    by (simp add: ex_defs ptr_add_def GIC_DIST_SOFTINT_def)
qed

section \<open>Wake configuration\<close>

lemma new_events_append: "trace s' = trace s @ es \<Longrightarrow> new_events s s' = es"
  by (simp add: new_events_def)

lemma unat_mod32: "unat ((g :: u32) mod 32) < 32"
  by (simp add: unat_mod)

lemma one_bit: "p < 32 \<Longrightarrow> bit (2 ^ p :: u32) n \<longleftrightarrow> n = p"
  by (auto simp: bit_simps)

lemma bit_u32: "bit (w :: u32) n \<Longrightarrow> n < 32"
  using bit_imp_le_length[of w n] by simp

lemma set_wake_bit:
  assumes "gic_irq d s < 1024" and "gic_set_wake d on s = Inr (r, s')"
  shows "bit (wakeup_irqs (gic_data s' (chip_data d)) (unat (gic_irq d s div 32)))
       (unat (gic_irq d s mod 32)) = (on \<noteq> 0)"
  using assms(2) unat_div32[OF assms(1)] unat_mod32[of "gic_irq d s"]
  by (auto simp: gic_set_wake_def Let_def set_wakeup_irqs_def
      bit_or_iff bit_and_iff bit_not_iff one_bit split: if_splits)

text \<open>
  Claim C5, as the code has it. For every local line below 1024, also one below 32,
  \<open>gic_set_wake\<close> returns 0 normally and leaves bit \<open>local_line % 32\<close> of
  \<open>wakeup_irqs[local_line / 32]\<close> set when \<open>on\<close> is not 0 and cleared otherwise. For a
  line below 32 the only difference is the warning of \<open>WARN_ON\<close>, after which the
  function goes on.
\<close>

theorem set_wake_any_line:
  assumes "gic_irq d s < 1024"
  shows "\<exists>s'. gic_set_wake d on s = Inr (0, s') \<and>
     new_events s s' = (if gic_irq d s < 32 then [Warn_on] else []) \<and>
     bit (wakeup_irqs (gic_data s' (chip_data d)) (unat (gic_irq d s div 32)))
       (unat (gic_irq d s mod 32)) = (on \<noteq> 0)"
proof -
  have word: "unat (gic_irq d s div 32) < 32" using assms by (rule unat_div32)
  have pos: "unat (gic_irq d s mod 32) < 32" by (rule unat_mod32)
  show ?thesis
    using word pos
    by (simp add: gic_set_wake_def Let_def set_wakeup_irqs_def new_events_def emit_def
        bit_or_iff bit_and_iff bit_not_iff one_bit)
qed

theorem set_wake_any_line_witness:
  "gic_irq (example_line 37) example_machine < 1024 \<and>
   gic_irq (example_line 37) example_machine < 32 \<and>
   gic_set_wake (example_line 37) 1 example_machine =
     Inr (0, snd (projr (gic_set_wake (example_line 37) 1 example_machine))) \<and>
   new_events example_machine (snd (projr (gic_set_wake (example_line 37) 1 example_machine))) =
     [Warn_on] \<and>
   bit (wakeup_irqs (gic_data (snd (projr (gic_set_wake (example_line 37) 1 example_machine))) 0) 0) 5"
proof -
  have g: "gic_irq (example_line 37) example_machine = 5" by (simp add: gic_irq_def ex_defs)
  have a: "gic_irq (example_line 37) example_machine < 1024" by (simp add: g)
  have c: "chip_data (example_line 37) = 0" by (simp add: ex_defs)
  from set_wake_any_line[OF a, of 1] obtain s' where
    r: "gic_set_wake (example_line 37) 1 example_machine = Inr (0, s')"
       "new_events example_machine s' = [Warn_on]"
       "bit (wakeup_irqs (gic_data s' 0) 0) 5"
    unfolding g c by auto
  show ?thesis using r(2,3) by (simp add: g r(1))
qed

text \<open>Claim C5 as stated fails: for local line 5 the call returns 0 and sets bit 5 of
  word 0 of \<open>wakeup_irqs\<close>.\<close>

theorem set_wake_local_line_counterexample:
  "gic_irq (example_line 37) example_machine = 5 \<and>
   \<not> isl (gic_set_wake (example_line 37) 1 example_machine) \<and>
   fst (projr (gic_set_wake (example_line 37) 1 example_machine)) = 0 \<and>
   wakeup_irqs (gic_data example_machine 0) 0 = 0 \<and>
   wakeup_irqs (gic_data (snd (projr (gic_set_wake (example_line 37) 1 example_machine))) 0) 0 = 32"
  by (simp add: gic_set_wake_def gic_irq_def ex_defs Let_def set_wakeup_irqs_def emit_def)

lemma set_wake_frame:
  assumes "gic_set_wake d on s = Inr (r, s')"
  shows "hw s' = hw s \<and> has_desc s' = has_desc s \<and>
     filter is_access (new_events s s') = [] \<and>
     (\<forall>k. k \<noteq> chip_data d \<longrightarrow> gic_data s' k = gic_data s k) \<and>
     enabled_irqs (gic_data s' (chip_data d)) = enabled_irqs (gic_data s (chip_data d)) \<and>
     irq_offset (gic_data s' (chip_data d)) = irq_offset (gic_data s (chip_data d)) \<and>
     dist_base (gic_data s' (chip_data d)) = dist_base (gic_data s (chip_data d)) \<and>
     cpu_base (gic_data s' (chip_data d)) = cpu_base (gic_data s (chip_data d)) \<and>
     max_irq (gic_data s' (chip_data d)) = max_irq (gic_data s (chip_data d)) \<and>
     (\<forall>j. j \<noteq> unat (gic_irq d s div 32) \<longrightarrow>
        wakeup_irqs (gic_data s' (chip_data d)) j = wakeup_irqs (gic_data s (chip_data d)) j) \<and>
     (\<forall>n. n \<noteq> unat (gic_irq d s mod 32) \<longrightarrow>
        bit (wakeup_irqs (gic_data s' (chip_data d)) (unat (gic_irq d s div 32))) n =
        bit (wakeup_irqs (gic_data s (chip_data d)) (unat (gic_irq d s div 32))) n)"
  using assms unat_mod32[of "gic_irq d s"]
  by (auto simp: gic_set_wake_def Let_def set_wakeup_irqs_def new_events_def emit_def
      bit_or_iff bit_and_iff bit_not_iff one_bit split: if_splits dest: bit_u32)

lemma word_of_line: "(g :: u32) < m \<Longrightarrow> unat (g div 32) * 32 < unat m"
proof -
  assume "g < m"
  then have "unat g < unat m" by (simp add: word_less_nat_alt)
  moreover have "unat (g div 32) = unat g div 32" by (simp add: unat_div)
  ultimately show ?thesis by simp
qed

lemma set_wake_then_suspend:
  assumes w: "gic_set_wake d on t = Inr (r, t')"
    and base: "dist_base (gic_data t (chip_data d)) = (w, 0)"
    and m: "max_irq (gic_data t (chip_data d)) \<le> 1024"
    and g: "gic_irq d t < max_irq (gic_data t (chip_data d))"
  shows "\<exists>t''. gic_suspend dist_dev (chip_data d) t' = Inr (0, t'') \<and>
     bit (enable (hw t'' w) (unat (gic_irq d t div 32))) (unat (gic_irq d t mod 32)) = (on \<noteq> 0)"
proof -
  let ?nr = "chip_data d"
  have g': "gic_irq d t < 1024" using g m by simp
  have b: "bit (wakeup_irqs (gic_data t' ?nr) (unat (gic_irq d t div 32)))
       (unat (gic_irq d t mod 32)) = (on \<noteq> 0)"
    using g' w by (rule set_wake_bit)
  from set_wake_frame[OF w]
  have f: "dist_base (gic_data t' ?nr) = (w, 0)" "max_irq (gic_data t' ?nr) = max_irq (gic_data t ?nr)"
    using base by auto
  have m': "max_irq (gic_data t' ?nr) \<le> 1024" using m f(2) by simp
  from suspend_loop_dist[OF m', of 0 w]
  obtain u where S: "gic_suspend_loop dist_dev ?nr (w, 0) 0 t' = Inr u"
    "\<And>j. enable (hw u w) j =
        (if j * 32 < unat (max_irq (gic_data t' ?nr))
         then wakeup_irqs (gic_data t' ?nr) j else enable (hw t' w) j)"
    by auto
  have e: "gic_suspend dist_dev ?nr t' = Inr (0, mb u)"
    by (simp add: gic_suspend_def f(1) S(1))
  have "enable (hw (mb u) w) (unat (gic_irq d t div 32)) =
      wakeup_irqs (gic_data t' ?nr) (unat (gic_irq d t div 32))"
    using word_of_line[OF g] by (simp add: prims S(2) f(2))
  with b e show ?thesis by auto
qed

text \<open>
  Claim C10. A \<open>gic_set_wake\<close> that returns leaves the hardware state as it was and adds
  no register read or write to the trace; of the chip data only the targeted bit of
  one word of \<open>wakeup_irqs\<close> of the owning controller can differ: \<open>enabled_irqs\<close>, the
  other fields, the other words, the other bits and the other controllers are
  unchanged. On the distributor device the bit reaches the hardware with the next
  \<open>gic_suspend\<close>: for a line below \<open>max_irq\<close> its enable bit is then set exactly when
  \<open>on\<close> was not 0.
\<close>

theorem set_wake_memory_only:
  "(gic_set_wake d on s = Inr (r, s') \<longrightarrow>
     hw s' = hw s \<and> has_desc s' = has_desc s \<and>
     filter is_access (new_events s s') = [] \<and>
     (\<forall>k. k \<noteq> chip_data d \<longrightarrow> gic_data s' k = gic_data s k) \<and>
     enabled_irqs (gic_data s' (chip_data d)) = enabled_irqs (gic_data s (chip_data d)) \<and>
     irq_offset (gic_data s' (chip_data d)) = irq_offset (gic_data s (chip_data d)) \<and>
     dist_base (gic_data s' (chip_data d)) = dist_base (gic_data s (chip_data d)) \<and>
     cpu_base (gic_data s' (chip_data d)) = cpu_base (gic_data s (chip_data d)) \<and>
     max_irq (gic_data s' (chip_data d)) = max_irq (gic_data s (chip_data d)) \<and>
     (\<forall>j. j \<noteq> unat (gic_irq d s div 32) \<longrightarrow>
        wakeup_irqs (gic_data s' (chip_data d)) j = wakeup_irqs (gic_data s (chip_data d)) j) \<and>
     (\<forall>n. n \<noteq> unat (gic_irq d s mod 32) \<longrightarrow>
        bit (wakeup_irqs (gic_data s' (chip_data d)) (unat (gic_irq d s div 32))) n =
        bit (wakeup_irqs (gic_data s (chip_data d)) (unat (gic_irq d s div 32))) n)) \<and>
   (gic_set_wake d on t = Inr (r, t') \<and>
    dist_base (gic_data t (chip_data d)) = (w, 0) \<and>
    max_irq (gic_data t (chip_data d)) \<le> 1024 \<and>
    gic_irq d t < max_irq (gic_data t (chip_data d)) \<longrightarrow>
     (\<exists>t''. gic_suspend dist_dev (chip_data d) t' = Inr (0, t'') \<and>
        bit (enable (hw t'' w) (unat (gic_irq d t div 32))) (unat (gic_irq d t mod 32)) =
          (on \<noteq> 0)))"
  using set_wake_frame[of d on s r s'] set_wake_then_suspend[of d on t r t' w]
  by blast

theorem set_wake_memory_only_witness:
  "\<not> isl (gic_set_wake (example_line 72) 1 example_machine) \<and>
   dist_base (gic_data example_machine (chip_data (example_line 72))) = (0, 0) \<and>
   max_irq (gic_data example_machine (chip_data (example_line 72))) \<le> 1024 \<and>
   gic_irq (example_line 72) example_machine
     < max_irq (gic_data example_machine (chip_data (example_line 72))) \<and>
   hw (snd (projr (gic_set_wake (example_line 72) 1 example_machine))) = hw example_machine \<and>
   filter is_access (new_events example_machine
     (snd (projr (gic_set_wake (example_line 72) 1 example_machine)))) = [] \<and>
   \<not> isl (gic_suspend dist_dev 0 (snd (projr (gic_set_wake (example_line 72) 1 example_machine)))) \<and>
   bit (enable (hw (snd (projr (gic_suspend dist_dev 0
     (snd (projr (gic_set_wake (example_line 72) 1 example_machine)))))) 0) 1) 8"
proof -
  have g: "gic_irq (example_line 72) example_machine = 40" by (simp add: gic_irq_def ex_defs)
  have c: "chip_data (example_line 72) = 0" by (simp add: ex_defs)
  obtain r s' where e: "gic_set_wake (example_line 72) 1 example_machine = Inr (r, s')"
    by (simp add: gic_set_wake_def g Let_def)
  have a: "dist_base (gic_data example_machine (chip_data (example_line 72))) = (0, 0)"
    by (simp add: ex_defs)
  have b: "max_irq (gic_data example_machine (chip_data (example_line 72))) \<le> 1024"
    by (simp add: ex_defs)
  have l: "gic_irq (example_line 72) example_machine
     < max_irq (gic_data example_machine (chip_data (example_line 72)))"
    unfolding g by (simp add: ex_defs)
  from set_wake_memory_only[of "example_line 72" 1 example_machine r s' example_machine s' 0]
    e a b l
  obtain t'' where f: "hw s' = hw example_machine"
     "filter is_access (new_events example_machine s') = []"
     "gic_suspend dist_dev 0 s' = Inr (0, t'')" "bit (enable (hw t'' 0) 1) 8"
    unfolding g c by auto
  show ?thesis using a b l f(1,2,4) by (simp add: e f(3))
qed

section \<open>Affinity\<close>

lemma byte_mask_bit:
  "bit (push_bit k (0xff :: u32)) n \<longleftrightarrow> k \<le> n \<and> n < k + 8 \<and> n < 32"
proof -
  have m: "(0xff :: u32) = mask 8" by (simp add: mask_eq_exp_minus_1)
  have "bit (push_bit k (mask 8 :: u32)) n \<longleftrightarrow> k \<le> n \<and> n < k + 8 \<and> n < 32"
    unfolding bit_push_bit_iff bit_mask_iff by auto
  then show ?thesis unfolding m .
qed

lemma unat_shift: "unat (((x :: u32) mod 4) * 8) = 8 * (unat x mod 4)"
  by (simp add: unat_word_ariths unat_mod)

lemma target_byte:
  assumes "(cpu :: u32) < 8"
  shows "bit ((v :: u32) AND NOT (push_bit (unat ((x mod 4) * 8)) 0xff) OR
              push_bit (unat (cpu + (x mod 4) * 8)) 1) n =
         (if unat ((x mod 4) * 8) \<le> n \<and> n < unat ((x mod 4) * 8) + 8
          then n = unat ((x mod 4) * 8) + unat cpu else bit v n)"
proof -
  have c: "unat cpu < 8" using assms by (simp add: word_less_nat_alt)
  have s: "unat ((x mod 4) * 8) \<le> 24" unfolding unat_shift by arith
  have u: "unat (cpu + (x mod 4) * 8) = unat cpu + unat ((x mod 4) * 8)"
    using c s by (simp add: unat_word_ariths)
  have p: "push_bit (unat cpu + unat ((x mod 4) * 8)) (1 :: u32) = 2 ^ (unat cpu + unat ((x mod 4) * 8))"
    by simp
  have lt: "unat cpu + unat ((x mod 4) * 8) < 32" using c s by simp
  show ?thesis
    unfolding u p using c s bit_u32[of v n]
    by (auto simp: bit_or_iff bit_and_iff bit_not_iff byte_mask_bit one_bit[OF lt])
qed

text \<open>
  Claim C4, as the code has it. On any device and for every line, whatever its local
  number: when \<open>irq_to_desc\<close> finds no descriptor, \<open>gic_set_cpu\<close> returns \<open>-EINVAL\<close> and
  only takes and releases the lock; otherwise it returns 0, stores the first CPU \<open>c\<close>
  of the mask in \<open>d->node\<close>, reads the target word of the line and writes it back with
  the byte at \<open>shift = (irq % 4) * 8\<close> cleared and \<open>1 << (c + shift)\<close> set, under the
  lock; for \<open>c < 8\<close> the written word has exactly bit \<open>c\<close> set in that byte and the three
  other bytes as read.
\<close>

theorem set_cpu_behaviour:
  "(\<not> has_desc s (irq d) \<longrightarrow>
      fst (gic_set_cpu dev nr d m force s) = - EINVAL \<and>
      hw (snd (snd (gic_set_cpu dev nr d m force s))) = hw s \<and>
      new_events s (snd (snd (gic_set_cpu dev nr d m force s))) = [Spin_lock, Spin_unlock]) \<and>
   (has_desc s (irq d) \<longrightarrow>
      fst (gic_set_cpu dev nr d m force s) = 0 \<and>
      node (fst (snd (gic_set_cpu dev nr d m force s))) = cpumask_first nr m \<and>
      new_events s (snd (snd (gic_set_cpu dev nr d m force s))) =
        [Spin_lock,
         Readl (ptr_add (ptr_add (gic_dist_base d s) GIC_DIST_TARGET) (gic_irq d s AND NOT 3))
           (fst (dev_readl dev (hw s)
              (ptr_add (ptr_add (gic_dist_base d s) GIC_DIST_TARGET) (gic_irq d s AND NOT 3)))),
         Writel
           (fst (dev_readl dev (hw s)
              (ptr_add (ptr_add (gic_dist_base d s) GIC_DIST_TARGET) (gic_irq d s AND NOT 3)))
            AND NOT (push_bit (unat ((irq d mod 4) * 8)) 0xff)
            OR push_bit (unat (cpumask_first nr m + (irq d mod 4) * 8)) 1)
           (ptr_add (ptr_add (gic_dist_base d s) GIC_DIST_TARGET) (gic_irq d s AND NOT 3)),
         Spin_unlock] \<and>
      (cpumask_first nr m < 8 \<longrightarrow>
         (\<forall>v n. bit (v AND NOT (push_bit (unat ((irq d mod 4) * 8)) 0xff)
                     OR push_bit (unat (cpumask_first nr m + (irq d mod 4) * 8)) (1 :: u32)) n =
            (if unat ((irq d mod 4) * 8) \<le> n \<and> n < unat ((irq d mod 4) * 8) + 8
             then n = unat ((irq d mod 4) * 8) + unat (cpumask_first nr m) else bit v n))))"
proof -
  have a: "\<not> has_desc s (irq d) \<Longrightarrow>
      fst (gic_set_cpu dev nr d m force s) = - EINVAL \<and>
      hw (snd (snd (gic_set_cpu dev nr d m force s))) = hw s \<and>
      new_events s (snd (snd (gic_set_cpu dev nr d m force s))) = [Spin_lock, Spin_unlock]"
    by (simp add: gic_set_cpu_def Let_def prims new_events_def)
  have b: "has_desc s (irq d) \<Longrightarrow>
      fst (gic_set_cpu dev nr d m force s) = 0 \<and>
      node (fst (snd (gic_set_cpu dev nr d m force s))) = cpumask_first nr m \<and>
      new_events s (snd (snd (gic_set_cpu dev nr d m force s))) =
        [Spin_lock,
         Readl (ptr_add (ptr_add (gic_dist_base d s) GIC_DIST_TARGET) (gic_irq d s AND NOT 3))
           (fst (dev_readl dev (hw s)
              (ptr_add (ptr_add (gic_dist_base d s) GIC_DIST_TARGET) (gic_irq d s AND NOT 3)))),
         Writel
           (fst (dev_readl dev (hw s)
              (ptr_add (ptr_add (gic_dist_base d s) GIC_DIST_TARGET) (gic_irq d s AND NOT 3)))
            AND NOT (push_bit (unat ((irq d mod 4) * 8)) 0xff)
            OR push_bit (unat (cpumask_first nr m + (irq d mod 4) * 8)) 1)
           (ptr_add (ptr_add (gic_dist_base d s) GIC_DIST_TARGET) (gic_irq d s AND NOT 3)),
         Spin_unlock]"
    by (simp add: gic_set_cpu_def Let_def prims new_events_def gic_irq_def gic_dist_base_def
        split: prod.splits)
  show ?thesis using a b target_byte by blast
qed

theorem set_cpu_behaviour_witness:
  "has_desc example_machine_unit (irq (example_line 37)) \<and>
   gic_irq (example_line 37) example_machine_unit = 5 \<and>
   fst (gic_set_cpu (const_dev 0x01010101) 4 (example_line 37) 4 False example_machine_unit) = 0 \<and>
   node (fst (snd (gic_set_cpu (const_dev 0x01010101) 4 (example_line 37) 4 False
     example_machine_unit))) = 2 \<and>
   new_events example_machine_unit
     (snd (snd (gic_set_cpu (const_dev 0x01010101) 4 (example_line 37) 4 False
        example_machine_unit))) =
     [Spin_lock, Readl (0, 0x804) 0x01010101, Writel 0x01010401 (0, 0x804), Spin_unlock] \<and>
   \<not> has_desc (example_machine_unit\<lparr>has_desc := (\<lambda>n. False)\<rparr>) (irq (example_line 37)) \<and>
   fst (gic_set_cpu (const_dev 0x01010101) 4 (example_line 37) 4 False
     (example_machine_unit\<lparr>has_desc := (\<lambda>n. False)\<rparr>)) = - 22 \<and>
   new_events (example_machine_unit\<lparr>has_desc := (\<lambda>n. False)\<rparr>)
     (snd (snd (gic_set_cpu (const_dev 0x01010101) 4 (example_line 37) 4 False
        (example_machine_unit\<lparr>has_desc := (\<lambda>n. False)\<rparr>)))) = [Spin_lock, Spin_unlock]"
proof -
  have c: "cpumask_first 4 (4 :: u32) = 2"
    by (simp add: cpumask_first_def upt_rec bit_iff_odd)
  have v: "(0x01010101 :: u32) AND NOT (push_bit (unat (((37 :: u32) mod 4) * 8)) 0xff)
      OR push_bit (unat ((2 :: u32) + (37 mod 4) * 8)) 1 = 0x01010401"
    by simp
  show ?thesis
    using set_cpu_behaviour[of example_machine_unit "example_line 37" "const_dev 0x01010101" 4 4 False]
      set_cpu_behaviour[of "example_machine_unit\<lparr>has_desc := (\<lambda>n. False)\<rparr>" "example_line 37"
        "const_dev 0x01010101" 4 4 False]
    by (simp add: ex_defs c v const_dev_def gic_irq_def gic_dist_base_def ptr_add_def
        GIC_DIST_TARGET_def EINVAL_def)
qed

text \<open>Claim C4 as stated fails: for local line 5 with a descriptor the call returns 0
  and writes the target register; without a descriptor the value returned is
  \<open>-EINVAL\<close>, the same error as for an invalid argument.\<close>

theorem set_cpu_banked_line_counterexample:
  "gic_irq (example_line 37) example_machine_unit < 32 \<and>
   has_desc example_machine_unit (irq (example_line 37)) \<and>
   fst (gic_set_cpu (const_dev 0x01010101) 4 (example_line 37) 4 False example_machine_unit) = 0 \<and>
   new_events example_machine_unit
     (snd (snd (gic_set_cpu (const_dev 0x01010101) 4 (example_line 37) 4 False
        example_machine_unit))) =
     [Spin_lock, Readl (0, 0x804) 0x01010101, Writel 0x01010401 (0, 0x804), Spin_unlock] \<and>
   fst (gic_set_cpu (const_dev 0x01010101) 4 (example_line 37) 4 False
     (example_machine_unit\<lparr>has_desc := (\<lambda>n. False)\<rparr>)) = - EINVAL"
  by (simp add: gic_set_cpu_def Let_def prims new_events_def gic_irq_def gic_dist_base_def
      ex_defs const_dev_def ptr_add_def GIC_DIST_TARGET_def cpumask_first_def upt_rec bit_iff_odd)

section \<open>Mask and unmask\<close>

declare dist_init_config.simps [simp del] dist_init_target.simps [simp del]
  dist_init_pri.simps [simp del] dist_init_disable.simps [simp del]
  dist_init_setup.simps [simp del] cpu_init_pri.simps [simp del]

lemma gic_data_writel: "gic_data (writel dev v a s) = gic_data s"
  by (simp add: prims)

lemma gic_data_emit: "gic_data (emit e s) = gic_data s"
  by (simp add: prims)

lemma dist_init_config_gic_data:
  "gic_data (dist_init_config dev base i n s) = gic_data s"
proof (induction dev base i n s rule: dist_init_config.induct)
  case (1 dev base i n s)
  show ?case
  proof (cases "i < n")
    case True
    show ?thesis
      by (subst dist_init_config.simps) (simp only: True if_True "1"[OF True] gic_data_writel gic_data_emit)
  next
    case False
    show ?thesis by (subst dist_init_config.simps) (simp only: False if_False)
  qed
qed

lemma dist_init_target_gic_data:
  "gic_data (dist_init_target dev base m i n s) = gic_data s"
proof (induction dev base m i n s rule: dist_init_target.induct)
  case (1 dev base m i n s)
  show ?case
  proof (cases "i < n")
    case True
    show ?thesis
      by (subst dist_init_target.simps) (simp only: True if_True "1"[OF True] gic_data_writel gic_data_emit)
  next
    case False
    show ?thesis by (subst dist_init_target.simps) (simp only: False if_False)
  qed
qed

lemma dist_init_pri_gic_data:
  "gic_data (dist_init_pri dev base i n s) = gic_data s"
proof (induction dev base i n s rule: dist_init_pri.induct)
  case (1 dev base i n s)
  show ?case
  proof (cases "i < n")
    case True
    show ?thesis
      by (subst dist_init_pri.simps) (simp only: True if_True "1"[OF True] gic_data_writel gic_data_emit)
  next
    case False
    show ?thesis by (subst dist_init_pri.simps) (simp only: False if_False)
  qed
qed

lemma dist_init_disable_gic_data:
  "gic_data (dist_init_disable dev base i n s) = gic_data s"
proof (induction dev base i n s rule: dist_init_disable.induct)
  case (1 dev base i n s)
  show ?case
  proof (cases "i < n")
    case True
    show ?thesis
      by (subst dist_init_disable.simps) (simp only: True if_True "1"[OF True] gic_data_writel gic_data_emit)
  next
    case False
    show ?thesis by (subst dist_init_disable.simps) (simp only: False if_False)
  qed
qed

lemma dist_init_setup_gic_data:
  "gic_data (dist_init_setup nr i lim s) = gic_data s"
proof (induction nr i lim s rule: dist_init_setup.induct)
  case (1 nr i lim s)
  show ?case
  proof (cases "i < lim")
    case True
    show ?thesis
      by (subst dist_init_setup.simps) (simp only: True if_True "1"[OF True] gic_data_writel gic_data_emit)
  next
    case False
    show ?thesis by (subst dist_init_setup.simps) (simp only: False if_False)
  qed
qed

lemma cpu_init_pri_gic_data:
  "gic_data (cpu_init_pri dev base i s) = gic_data s"
proof (induction dev base i s rule: cpu_init_pri.induct)
  case (1 dev base i s)
  show ?case
  proof (cases "i < 32")
    case True
    show ?thesis
      by (subst cpu_init_pri.simps) (simp only: True if_True "1"[OF True] gic_data_writel gic_data_emit)
  next
    case False
    show ?thesis by (subst cpu_init_pri.simps) (simp only: False if_False)
  qed
qed

lemmas init_gic_data = dist_init_config_gic_data dist_init_target_gic_data
  dist_init_pri_gic_data dist_init_disable_gic_data dist_init_setup_gic_data
  cpu_init_pri_gic_data

lemma gic_dist_init_irq_offset:
  "irq_offset (gic_data (gic_dist_init dev nr_irqs cpu nr irq_start s) nr) =
   irq_offset (gic_data s nr)"
  by (simp add: gic_dist_init_def Let_def prims init_gic_data split: prod.splits)

lemma gic_cpu_init_gic_data: "gic_data (gic_cpu_init dev nr s) = gic_data s"
  by (simp add: gic_cpu_init_def Let_def prims init_gic_data)

lemma gic_init_irq_offset:
  "gic_init dev max_gic_nr nr_irqs cpu nr irq_start db cb s0 = Inr s \<Longrightarrow>
   irq_offset (gic_data s nr) = (irq_start - 1) AND NOT 31"
  by (auto simp: gic_init_def Let_def gic_cpu_init_gic_data gic_dist_init_irq_offset
      split: if_splits)

lemma aligned_offset: "((x :: u32) AND NOT 31) mod 32 = 0"
proof -
  have "take_bit 5 (x AND NOT (mask 5)) = (0 :: u32)"
    by (rule bit_eqI) (auto simp: bit_simps)
  then show ?thesis by (simp add: take_bit_eq_mod mask_eq_exp_minus_1)
qed

lemma mod32_sub_aligned: "(b :: u32) mod 32 = 0 \<Longrightarrow> (a - b) mod 32 = a mod 32"
proof -
  assume b: "b mod 32 = 0"
  have d: "(32 :: int) dvd 2 ^ 32" by simp
  have "uint (b mod 32) = uint b mod 32" by (simp add: uint_mod)
  with b have b0: "uint b mod 32 = 0" by simp
  have "uint ((a - b) mod 32) = ((uint a - uint b) mod 2 ^ 32) mod 32"
    by (simp add: uint_mod uint_word_ariths)
  also have "\<dots> = (uint a - uint b) mod 32" using d by (rule mod_mod_cancel)
  also have "\<dots> = (uint a mod 32 - uint b mod 32) mod 32" by (rule mod_diff_eq[symmetric])
  also have "\<dots> = uint a mod 32" by (simp add: b0)
  also have "\<dots> = uint (a mod 32)" by (simp add: uint_mod)
  finally show ?thesis by (simp add: word_uint_eq_iff)
qed

text \<open>
  Claim C7. \<open>gic_init\<close> leaves the controller's \<open>irq_offset\<close> a multiple of 32. For a
  line of a controller with such an offset, on any device, \<open>gic_mask_irq\<close> makes one
  register write under the lock: the single bit \<open>1 << (local_line % 32)\<close> to Enable-Clear
  at byte offset \<open>(local_line / 32) * 4\<close> of the controller's distributor window;
  \<open>gic_unmask_irq\<close> writes the same bit to Enable-Set at that offset. The source takes
  the bit from the global number \<open>d->irq % 32\<close>, which agrees with the local one because
  of the alignment.
\<close>

theorem mask_unmask_write:
  "(gic_init dev0 max_gic_nr nr_irqs cpu nr irq_start db cb s0 = Inr s1 \<longrightarrow>
      irq_offset (gic_data s1 nr) mod 32 = 0) \<and>
   (irq_offset (gic_data s (chip_data d)) mod 32 = 0 \<longrightarrow>
      new_events s (gic_mask_irq dev d s) =
        [Spin_lock,
         Writel (push_bit (unat (gic_irq d s mod 32)) 1)
           (ptr_add (ptr_add (gic_dist_base d s) GIC_DIST_ENABLE_CLEAR) ((gic_irq d s div 32) * 4)),
         Spin_unlock] \<and>
      hw (gic_mask_irq dev d s) =
        dev_writel dev (hw s)
          (ptr_add (ptr_add (gic_dist_base d s) GIC_DIST_ENABLE_CLEAR) ((gic_irq d s div 32) * 4))
          (push_bit (unat (gic_irq d s mod 32)) 1) \<and>
      new_events s (gic_unmask_irq dev d s) =
        [Spin_lock,
         Writel (push_bit (unat (gic_irq d s mod 32)) 1)
           (ptr_add (ptr_add (gic_dist_base d s) GIC_DIST_ENABLE_SET) ((gic_irq d s div 32) * 4)),
         Spin_unlock] \<and>
      hw (gic_unmask_irq dev d s) =
        dev_writel dev (hw s)
          (ptr_add (ptr_add (gic_dist_base d s) GIC_DIST_ENABLE_SET) ((gic_irq d s div 32) * 4))
          (push_bit (unat (gic_irq d s mod 32)) 1))"
proof (intro conjI impI)
  assume "gic_init dev0 max_gic_nr nr_irqs cpu nr irq_start db cb s0 = Inr s1"
  then have "irq_offset (gic_data s1 nr) = (irq_start - 1) AND NOT 31"
    by (rule gic_init_irq_offset)
  then show "irq_offset (gic_data s1 nr) mod 32 = 0"
    by (simp only: aligned_offset)
next
  assume a: "irq_offset (gic_data s (chip_data d)) mod 32 = 0"
  have m: "gic_irq d s mod 32 = irq d mod 32"
    unfolding gic_irq_def by (rule mod32_sub_aligned[OF a])
  show "new_events s (gic_mask_irq dev d s) =
        [Spin_lock,
         Writel (push_bit (unat (gic_irq d s mod 32)) 1)
           (ptr_add (ptr_add (gic_dist_base d s) GIC_DIST_ENABLE_CLEAR) ((gic_irq d s div 32) * 4)),
         Spin_unlock]"
    unfolding m by (simp add: gic_mask_irq_def Let_def prims new_events_def gic_irq_def gic_dist_base_def)
  show "hw (gic_mask_irq dev d s) =
        dev_writel dev (hw s)
          (ptr_add (ptr_add (gic_dist_base d s) GIC_DIST_ENABLE_CLEAR) ((gic_irq d s div 32) * 4))
          (push_bit (unat (gic_irq d s mod 32)) 1)"
    unfolding m by (simp add: gic_mask_irq_def Let_def prims gic_irq_def gic_dist_base_def)
  show "new_events s (gic_unmask_irq dev d s) =
        [Spin_lock,
         Writel (push_bit (unat (gic_irq d s mod 32)) 1)
           (ptr_add (ptr_add (gic_dist_base d s) GIC_DIST_ENABLE_SET) ((gic_irq d s div 32) * 4)),
         Spin_unlock]"
    unfolding m by (simp add: gic_unmask_irq_def Let_def prims new_events_def gic_irq_def gic_dist_base_def)
  show "hw (gic_unmask_irq dev d s) =
        dev_writel dev (hw s)
          (ptr_add (ptr_add (gic_dist_base d s) GIC_DIST_ENABLE_SET) ((gic_irq d s div 32) * 4))
          (push_bit (unat (gic_irq d s mod 32)) 1)"
    unfolding m by (simp add: gic_unmask_irq_def Let_def prims gic_irq_def gic_dist_base_def)
qed

theorem mask_unmask_write_witness:
  "gic_init (const_dev 1) 1 256 0 0 64 (0, 0) (1, 0) example_machine_unit =
     Inr (projr (gic_init (const_dev 1) 1 256 0 0 64 (0, 0) (1, 0) example_machine_unit)) \<and>
   irq_offset (gic_data
     (projr (gic_init (const_dev 1) 1 256 0 0 64 (0, 0) (1, 0) example_machine_unit)) 0) mod 32 = 0 \<and>
   irq_offset (gic_data example_machine (chip_data (example_line 72))) = 32 \<and>
   gic_irq (example_line 72) example_machine = 40 \<and>
   new_events example_machine (gic_mask_irq dist_dev (example_line 72) example_machine) =
     [Spin_lock, Writel 0x100 (0, 0x184), Spin_unlock] \<and>
   new_events example_machine (gic_unmask_irq dist_dev (example_line 72) example_machine) =
     [Spin_lock, Writel 0x100 (0, 0x104), Spin_unlock]"
proof -
  let ?r = "gic_init (const_dev 1) 1 256 0 0 64 (0, 0) (1, 0) example_machine_unit"
  have i: "?r = Inr (projr ?r)" by (simp add: gic_init_def)
  have o: "irq_offset (gic_data example_machine (chip_data (example_line 72))) = 32"
    by (simp add: ex_defs)
  have g: "gic_irq (example_line 72) example_machine = 40" by (simp add: gic_irq_def ex_defs)
  have b: "gic_dist_base (example_line 72) example_machine = (0, 0)"
    by (simp add: gic_dist_base_def ex_defs)
  show ?thesis
    using i o g
      mask_unmask_write[of "const_dev 1" 1 256 0 0 64 "(0, 0)" "(1, 0)" example_machine_unit
        "projr ?r" example_machine "example_line 72" dist_dev]
    by (simp add: b ptr_add_def GIC_DIST_ENABLE_SET_def GIC_DIST_ENABLE_CLEAR_def)
qed

section \<open>Lock discipline\<close>

lemma suspend_word_trace:
  "\<exists>v x. trace (gic_suspend_word dev nr base i s) =
     trace s @ [Readl (ptr_add (ptr_add base GIC_DIST_ENABLE_SET) (i * 4)) v,
       Writel 0xffffffff (ptr_add (ptr_add base GIC_DIST_ENABLE_CLEAR) (i * 4)),
       Writel x (ptr_add (ptr_add base GIC_DIST_ENABLE_SET) (i * 4))]"
  by (simp add: gic_suspend_word_def Let_def prims set_enabled_irqs_def split: prod.splits)

lemma resume_word_trace:
  "\<exists>x. trace (gic_resume_word dev nr base i s) =
     trace s @ [Writel 0xffffffff (ptr_add (ptr_add base GIC_DIST_ENABLE_CLEAR) (i * 4)),
       Writel x (ptr_add (ptr_add base GIC_DIST_ENABLE_SET) (i * 4))]"
  by (simp add: gic_resume_word_def Let_def prims)

lemma suspend_loop_trace:
  "gic_suspend_loop dev nr base i s = Inr s' \<Longrightarrow>
   \<exists>es. trace s' = trace s @ es \<and> Spin_lock \<notin> set es \<and>
     (i * 32 < max_irq (gic_data s nr) \<longrightarrow> \<not> locked False es)"
proof (induction dev nr base i s rule: gic_suspend_loop.induct)
  case (1 dev gic_nr base i s)
  show ?case
  proof (cases "i * 32 < max_irq (gic_data s gic_nr)")
    case False
    with "1.prems" have "s' = s" by (subst (asm) gic_suspend_loop.simps gic_suspend_word_def Let_def) simp
    with False show ?thesis by simp
  next
    case True
    have n: "\<not> 32 \<le> unat i"
      using "1.prems" True by (subst (asm) gic_suspend_loop.simps gic_suspend_word_def Let_def) (simp split: if_splits)
    let ?s2 = "gic_suspend_word dev gic_nr base i s"
    have run: "gic_suspend_loop dev gic_nr base (i + 1) ?s2 = Inr s'"
      using "1.prems" True n by (subst (asm) gic_suspend_loop.simps gic_suspend_word_def Let_def) simp
    from "1.IH"[OF True n run]
    obtain es where es: "trace s' = trace ?s2 @ es" "Spin_lock \<notin> set es" by blast
    from suspend_word_trace[of dev gic_nr base i s] obtain v x where
      t2: "trace ?s2 = trace s @
        [Readl (ptr_add (ptr_add base GIC_DIST_ENABLE_SET) (i * 4)) v,
         Writel 0xffffffff (ptr_add (ptr_add base GIC_DIST_ENABLE_CLEAR) (i * 4)),
         Writel x (ptr_add (ptr_add base GIC_DIST_ENABLE_SET) (i * 4))]"
      by blast
    show ?thesis
      using es by (simp add: t2)
  qed
qed

lemma resume_loop_trace:
  "gic_resume_loop dev nr base i s = Inr s' \<Longrightarrow>
   \<exists>es. trace s' = trace s @ es \<and> Spin_lock \<notin> set es \<and>
     (i * 32 < max_irq (gic_data s nr) \<longrightarrow> \<not> locked False es)"
proof (induction dev nr base i s rule: gic_resume_loop.induct)
  case (1 dev gic_nr base i s)
  show ?case
  proof (cases "i * 32 < max_irq (gic_data s gic_nr)")
    case False
    with "1.prems" have "s' = s" by (subst (asm) gic_resume_loop.simps) simp
    with False show ?thesis by simp
  next
    case True
    have n: "\<not> 32 \<le> unat i"
      using "1.prems" True by (subst (asm) gic_resume_loop.simps) (simp split: if_splits)
    let ?s2 = "gic_resume_word dev gic_nr base i s"
    have run: "gic_resume_loop dev gic_nr base (i + 1) ?s2 = Inr s'"
      using "1.prems" True n by (subst (asm) gic_resume_loop.simps) simp
    from "1.IH"[OF True n run]
    obtain es where es: "trace s' = trace ?s2 @ es" "Spin_lock \<notin> set es" by blast
    from resume_word_trace[of dev gic_nr base i s] obtain x where
      t2: "trace ?s2 = trace s @
        [Writel 0xffffffff (ptr_add (ptr_add base GIC_DIST_ENABLE_CLEAR) (i * 4)),
         Writel x (ptr_add (ptr_add base GIC_DIST_ENABLE_SET) (i * 4))]"
      by blast
    show ?thesis
      using es by (simp add: t2)
  qed
qed

lemma locked_snoc_other: "locked h (es @ [Mb]) = locked h es"
  by (induction h es rule: locked.induct) simp_all

lemma suspend_unlocked:
  assumes "gic_suspend dev nr s = Inr (r, s')"
  shows "Spin_lock \<notin> set (new_events s s') \<and>
     (0 < max_irq (gic_data s nr) \<longrightarrow> \<not> locked False (new_events s s'))"
proof -
  from assms obtain u where u: "gic_suspend_loop dev nr (dist_base (gic_data s nr)) 0 s = Inr u"
    and s': "s' = mb u"
    by (auto simp: gic_suspend_def split: sum.splits)
  from suspend_loop_trace[OF u] obtain es where
    es: "trace u = trace s @ es" "Spin_lock \<notin> set es"
      "0 < max_irq (gic_data s nr) \<longrightarrow> \<not> locked False es"
    by auto
  have "new_events s s' = es @ [Mb]" by (simp add: s' new_events_def prims es(1))
  with es(2,3) show ?thesis by (simp add: locked_snoc_other)
qed

lemma resume_unlocked:
  assumes "gic_resume dev nr s = Inr (r, s')"
  shows "Spin_lock \<notin> set (new_events s s') \<and>
     (0 < max_irq (gic_data s nr) \<longrightarrow> \<not> locked False (new_events s s'))"
proof -
  from assms obtain u where u: "gic_resume_loop dev nr (dist_base (gic_data s nr)) 0 s = Inr u"
    and s': "s' = mb u"
    by (auto simp: gic_resume_def split: sum.splits)
  from resume_loop_trace[OF u] obtain es where
    es: "trace u = trace s @ es" "Spin_lock \<notin> set es"
      "0 < max_irq (gic_data s nr) \<longrightarrow> \<not> locked False es"
    by auto
  have "new_events s s' = es @ [Mb]" by (simp add: s' new_events_def prims es(1))
  with es(2,3) show ?thesis by (simp add: locked_snoc_other)
qed

lemma trace_emit: "trace (emit e s) = trace s @ [e]"
  by (simp add: emit_def)

lemma trace_writel: "trace (writel dev v a s) = trace s @ [Writel v a]"
  by (simp add: writel_def emit_def)

lemma trace_readl: "readl dev a s = (v, s') \<Longrightarrow> trace s' = trace s @ [Readl a v]"
  by (auto simp: readl_def emit_def split: prod.splits)

lemma set_type_trace:
  "\<exists>es. trace (snd (gic_set_type dev d type s)) = trace s @ es \<and>
     locked False es \<and> \<not> held_after False es"
proof (cases "gic_irq d s < 16 \<or>
    (type \<noteq> IRQ_TYPE_LEVEL_HIGH \<and> type \<noteq> IRQ_TYPE_EDGE_RISING)")
  case True
  then have "gic_set_type dev d type s = (- EINVAL, s)"
    by (auto simp: gic_set_type_def Let_def)
  then show ?thesis by simp
next
  case False
  let ?base = "gic_dist_base d s"
  let ?g = "gic_irq d s"
  let ?ca = "ptr_add (ptr_add ?base GIC_DIST_CONFIG) ((?g div 16) * 4)"
  let ?ea = "ptr_add (ptr_add ?base GIC_DIST_ENABLE_SET) ((?g div 32) * 4)"
  obtain v0 s1 where r1: "readl dev ?ca (spin_lock s) = (v0, s1)"
    by (cases "readl dev ?ca (spin_lock s)")
  obtain en s2 where r2: "readl dev ?ea s1 = (en, s2)"
    by (cases "readl dev ?ea s1")
  have t1: "trace s1 = trace s @ [Spin_lock, Readl ?ca v0]"
    using trace_readl[OF r1] by (simp add: spin_lock_def trace_emit)
  have t2: "trace s2 = trace s @ [Spin_lock, Readl ?ca v0, Readl ?ea en]"
    using trace_readl[OF r2] by (simp add: t1)
  from False have f: "\<not> gic_irq d s < 16"
    "\<not> (type \<noteq> IRQ_TYPE_LEVEL_HIGH \<and> type \<noteq> IRQ_TYPE_EDGE_RISING)" by auto
  have "\<exists>es. trace (snd (gic_set_type dev d type s)) = trace s2 @ es \<and>
      locked True es \<and> \<not> held_after True es"
    unfolding gic_set_type_def Let_def
    by (simp only: f if_False r1 r2 prod.case snd_conv)
       (simp add: trace_writel trace_emit spin_unlock_def)
  then obtain es where es: "trace (snd (gic_set_type dev d type s)) = trace s2 @ es"
    "locked True es" "\<not> held_after True es" by blast
  have "trace (snd (gic_set_type dev d type s)) =
      trace s @ ([Spin_lock, Readl ?ca v0, Readl ?ea en] @ es)"
    by (simp add: es(1) t2)
  moreover have "locked False ([Spin_lock, Readl ?ca v0, Readl ?ea en] @ es)"
    using es(2) by simp
  moreover have "\<not> held_after False ([Spin_lock, Readl ?ca v0, Readl ?ea en] @ es)"
    using es(3) by simp
  ultimately show ?thesis by blast
qed

lemma set_type_locked:
  "locked False (new_events s (snd (gic_set_type dev d type s))) \<and>
   \<not> held_after False (new_events s (snd (gic_set_type dev d type s)))"
proof -
  from set_type_trace[of dev d type s] obtain es where
    "trace (snd (gic_set_type dev d type s)) = trace s @ es"
    "locked False es" "\<not> held_after False es" by blast
  then show ?thesis by (simp add: new_events_append)
qed

lemma set_cpu_locked:
  "locked False (new_events s (snd (snd (gic_set_cpu dev nr d m force s)))) \<and>
   \<not> held_after False (new_events s (snd (snd (gic_set_cpu dev nr d m force s))))"
proof (cases "has_desc s (irq d)")
  case False
  then show ?thesis
    by (simp add: gic_set_cpu_def Let_def prims new_events_def)
next
  case True
  let ?reg = "ptr_add (ptr_add (gic_dist_base d s) GIC_DIST_TARGET) (gic_irq d s AND NOT 3)"
  obtain v s1 where r: "readl dev ?reg (spin_lock s) = (v, s1)"
    by (cases "readl dev ?reg (spin_lock s)")
  have t1: "trace s1 = trace s @ [Spin_lock, Readl ?reg v]"
    using trace_readl[OF r] by (simp add: spin_lock_def trace_emit)
  have h: "has_desc (spin_lock s) (irq d)" using True by (simp add: prims)
  have "\<exists>w. trace (snd (snd (gic_set_cpu dev nr d m force s))) =
      trace s @ [Spin_lock, Readl ?reg v, Writel w ?reg, Spin_unlock]"
    unfolding gic_set_cpu_def Let_def
    by (simp only: h not_True_eq_False if_False r prod.case snd_conv)
       (simp add: trace_writel trace_emit spin_unlock_def t1)
  then obtain w where "trace (snd (snd (gic_set_cpu dev nr d m force s))) =
      trace s @ [Spin_lock, Readl ?reg v, Writel w ?reg, Spin_unlock]" by blast
  then show ?thesis by (simp add: new_events_append)
qed

lemma mask_locked:
  "locked False (new_events s (gic_mask_irq dev d s)) \<and>
   \<not> held_after False (new_events s (gic_mask_irq dev d s)) \<and>
   locked False (new_events s (gic_unmask_irq dev d s)) \<and>
   \<not> held_after False (new_events s (gic_unmask_irq dev d s))"
  by (simp add: gic_mask_irq_def gic_unmask_irq_def Let_def prims new_events_def)

text \<open>
  Claim C3, as the code has it. On any device, in \<open>gic_mask_irq\<close>, \<open>gic_unmask_irq\<close>,
  \<open>gic_set_type\<close> and \<open>gic_set_cpu\<close> every register access happens between taking
  \<open>irq_controller_lock\<close> and releasing it, and the lock is released at the end;
  \<open>gic_set_wake\<close> makes no register access. \<open>gic_suspend\<close> and \<open>gic_resume\<close> never take
  the lock: for a controller with at least one line their register accesses happen
  without it.
\<close>

theorem lock_discipline:
  "locked False (new_events s (gic_mask_irq dev d s)) \<and>
   \<not> held_after False (new_events s (gic_mask_irq dev d s)) \<and>
   locked False (new_events s (gic_unmask_irq dev d s)) \<and>
   \<not> held_after False (new_events s (gic_unmask_irq dev d s)) \<and>
   locked False (new_events s (snd (gic_set_type dev d type s))) \<and>
   \<not> held_after False (new_events s (snd (gic_set_type dev d type s))) \<and>
   locked False (new_events s (snd (snd (gic_set_cpu dev nr d m force s)))) \<and>
   \<not> held_after False (new_events s (snd (snd (gic_set_cpu dev nr d m force s)))) \<and>
   (gic_set_wake d on s = Inr (r, s') \<longrightarrow> filter is_access (new_events s s') = []) \<and>
   (gic_suspend dev gic_nr s = Inr (r1, s1) \<longrightarrow>
      Spin_lock \<notin> set (new_events s s1) \<and>
      (0 < max_irq (gic_data s gic_nr) \<longrightarrow> \<not> locked False (new_events s s1))) \<and>
   (gic_resume dev gic_nr s = Inr (r2, s2) \<longrightarrow>
      Spin_lock \<notin> set (new_events s s2) \<and>
      (0 < max_irq (gic_data s gic_nr) \<longrightarrow> \<not> locked False (new_events s s2)))"
  using mask_locked[of s dev d] set_type_locked[of s dev d type]
    set_cpu_locked[of s dev nr d m force] set_wake_frame[of d on s r s']
    suspend_unlocked[of dev gic_nr s r1 s1] resume_unlocked[of dev gic_nr s r2 s2]
  by blast

text \<open>Claim C3 as stated fails: \<open>gic_suspend\<close> on a controller with 64 lines reads and
  writes the enable registers and its events hold no lock acquire.\<close>

theorem suspend_without_lock_counterexample:
  "\<not> isl (gic_suspend dist_dev 0 example_machine) \<and>
   new_events example_machine (snd (projr (gic_suspend dist_dev 0 example_machine))) =
     [Readl (0, 0x100) 0, Writel 0xffffffff (0, 0x180), Writel 0 (0, 0x100),
      Readl (0, 0x104) 0, Writel 0xffffffff (0, 0x184), Writel 1 (0, 0x104), Mb] \<and>
   \<not> locked False (new_events example_machine
        (snd (projr (gic_suspend dist_dev 0 example_machine))))"
  by (simp add: gic_suspend_def ex_defs prims set_enabled_irqs_def dist_defs
      gic_suspend_loop.simps gic_suspend_word_def Let_def new_events_def)

theorem lock_discipline_witness:
  "gic_set_wake (example_line 72) 1 example_machine =
     Inr (0, snd (projr (gic_set_wake (example_line 72) 1 example_machine))) \<and>
   gic_suspend dist_dev 0 example_machine =
     Inr (0, snd (projr (gic_suspend dist_dev 0 example_machine))) \<and>
   gic_resume dist_dev 0 example_machine =
     Inr (0, snd (projr (gic_resume dist_dev 0 example_machine))) \<and>
   0 < max_irq (gic_data example_machine 0) \<and>
   locked False (new_events example_machine (gic_mask_irq dist_dev (example_line 72) example_machine)) \<and>
   filter is_access (new_events example_machine
     (snd (projr (gic_set_wake (example_line 72) 1 example_machine)))) = [] \<and>
   Spin_lock \<notin> set (new_events example_machine
     (snd (projr (gic_suspend dist_dev 0 example_machine)))) \<and>
   \<not> locked False (new_events example_machine
     (snd (projr (gic_suspend dist_dev 0 example_machine)))) \<and>
   \<not> locked False (new_events example_machine
     (snd (projr (gic_resume dist_dev 0 example_machine))))"
proof -
  have g: "gic_irq (example_line 72) example_machine = 40" by (simp add: gic_irq_def ex_defs)
  have w: "gic_set_wake (example_line 72) 1 example_machine =
     Inr (0, snd (projr (gic_set_wake (example_line 72) 1 example_machine)))"
    by (simp add: gic_set_wake_def g Let_def)
  have su: "gic_suspend dist_dev 0 example_machine =
     Inr (0, snd (projr (gic_suspend dist_dev 0 example_machine)))"
    by (simp add: gic_suspend_def ex_defs prims set_enabled_irqs_def dist_defs
        gic_suspend_loop.simps gic_suspend_word_def Let_def)
  have re: "gic_resume dist_dev 0 example_machine =
     Inr (0, snd (projr (gic_resume dist_dev 0 example_machine)))"
    by (simp add: gic_resume_def ex_defs prims dist_defs gic_resume_loop.simps
        gic_resume_word_def Let_def)
  have m: "0 < max_irq (gic_data example_machine 0)" by (simp add: ex_defs)
  show ?thesis
    using w su re m
      lock_discipline[of example_machine dist_dev "example_line 72" IRQ_TYPE_EDGE_RISING 4 4 False
        1 0 "snd (projr (gic_set_wake (example_line 72) 1 example_machine))"
        0 0 "snd (projr (gic_suspend dist_dev 0 example_machine))"
        0 "snd (projr (gic_resume dist_dev 0 example_machine))"]
    by simp
qed

end
